theory Spec2Isabelle
  imports Complex_Main "HOL-Library.Log_Nat" "HOL-Library.Char_ord" "HOL-Library.List_Lexorder"
    "HOL-Library.Sublist"
begin

section \<open>Floating-point numbers\<close>

text \<open>
  The library computes with the C++ types \<^verbatim>\<open>float\<close> and \<^verbatim>\<open>double\<close>. Both are modelled
  by one type of IEEE 754 values: a finite value is a sign bit and a rational magnitude (so
  that the two zeros are distinct), and there are the two infinities and one NaN (sign and
  payload of a NaN are not modelled). Every arithmetic operation takes the format in which
  C++ performs it and rounds the exact result to that format, to nearest with ties to even,
  the default rounding mode. All computation is on \<open>int\<close> and \<open>rat\<close>.
\<close>

datatype fl = Finite bool rat | Infinity bool | NaN

type_synonym format = "int \<times> int" \<comment> \<open>precision in bits, largest exponent\<close>

definition binary32 :: format where "binary32 = (24, 127)"
definition binary64 :: format where "binary64 = (53, 1023)"

function ipow :: "int \<Rightarrow> int \<Rightarrow> int" where
  "ipow b e = (if e \<le> 0 then 1
               else let h = ipow b (e div 2) in if even e then h * h else h * h * b)"
  by pat_completeness auto
termination
  by (relation "measure (\<lambda>(b, e). nat e)") auto

definition scale :: "int \<Rightarrow> int \<Rightarrow> int \<Rightarrow> rat" where
  \<comment> \<open>\<open>m * b ^ e\<close> for an exponent of either sign\<close>
  "scale b m e = (if 0 \<le> e then of_int (m * ipow b e) else Fract m (ipow b (- e)))"

definition round_quot :: "int \<Rightarrow> int \<Rightarrow> int" where
  \<comment> \<open>the integer nearest to \<open>n / d\<close> for \<open>0 < d\<close>, a tie going to the even one\<close>
  "round_quot n d = (let f = n div d; r = n mod d
     in if 2 * r < d then f else if d < 2 * r then f + 1 else if even f then f else f + 1)"

definition ilog2 :: "rat \<Rightarrow> int" where
  \<comment> \<open>\<open>\<lfloor>log\<^sub>2 x\<rfloor>\<close> for \<open>0 < x\<close>\<close>
  "ilog2 x = (case quotient_of x of (a, b) \<Rightarrow>
     let d = bitlen a - bitlen b
     in if b * ipow 2 d \<le> a * ipow 2 (- d) then d else d - 1)"

definition quantize :: "int \<Rightarrow> int \<Rightarrow> rat \<Rightarrow> rat" where
  \<comment> \<open>\<open>x\<close> rounded to a multiple of the unit in the last place of a \<open>p\<close>-bit significand
      with exponent \<open>e\<close>\<close>
  "quantize p e x = (case quotient_of x of (a, b) \<Rightarrow>
     let k = e - p + 1
     in scale 2 (round_quot (a * ipow 2 (- k)) (b * ipow 2 k)) k)"

definition round_mag :: "format \<Rightarrow> rat \<Rightarrow> rat option" where
  \<comment> \<open>a magnitude \<open>0 < x\<close> rounded to the format (subnormal below the smallest exponent);
      \<open>None\<close> is overflow\<close>
  "round_mag fmt x = (case fmt of (p, emax) \<Rightarrow>
     let y = quantize p (max (ilog2 x) (1 - emax)) x
     in if scale 2 1 (emax + 1) \<le> y then None else Some y)"

definition fround :: "format \<Rightarrow> bool \<Rightarrow> rat \<Rightarrow> fl" where
  "fround fmt s m = (if m = 0 then Finite s 0
     else case round_mag fmt m of None \<Rightarrow> Infinity s | Some y \<Rightarrow> Finite s y)"

definition fval :: "bool \<Rightarrow> rat \<Rightarrow> rat" where
  "fval s m = (if s then - m else m)"

definition round_signed :: "format \<Rightarrow> bool \<Rightarrow> rat \<Rightarrow> fl" where
  \<comment> \<open>\<open>z\<close> is the sign of the result when \<open>x\<close> is an exact zero\<close>
  "round_signed fmt z x = (if x = 0 then Finite z 0 else fround fmt (x < 0) \<bar>x\<bar>)"

fun fneg :: "fl \<Rightarrow> fl" where
  "fneg (Finite s m) = Finite (\<not> s) m"
| "fneg (Infinity s) = Infinity (\<not> s)"
| "fneg NaN = NaN"

fun fabs :: "fl \<Rightarrow> fl" where
  "fabs (Finite s m) = Finite False m"
| "fabs (Infinity s) = Infinity False"
| "fabs NaN = NaN"

fun fadd :: "format \<Rightarrow> fl \<Rightarrow> fl \<Rightarrow> fl" where
  "fadd fmt NaN b = NaN"
| "fadd fmt a NaN = NaN"
| "fadd fmt (Infinity s) (Infinity t) = (if s = t then Infinity s else NaN)"
| "fadd fmt (Infinity s) (Finite t n) = Infinity s"
| "fadd fmt (Finite s m) (Infinity t) = Infinity t"
| "fadd fmt (Finite s m) (Finite t n) = round_signed fmt (s \<and> t) (fval s m + fval t n)"

definition fsub :: "format \<Rightarrow> fl \<Rightarrow> fl \<Rightarrow> fl" where
  "fsub fmt a b = fadd fmt a (fneg b)"

fun fmul :: "format \<Rightarrow> fl \<Rightarrow> fl \<Rightarrow> fl" where
  "fmul fmt NaN b = NaN"
| "fmul fmt a NaN = NaN"
| "fmul fmt (Infinity s) (Infinity t) = Infinity (s \<noteq> t)"
| "fmul fmt (Infinity s) (Finite t n) = (if n = 0 then NaN else Infinity (s \<noteq> t))"
| "fmul fmt (Finite s m) (Infinity t) = (if m = 0 then NaN else Infinity (s \<noteq> t))"
| "fmul fmt (Finite s m) (Finite t n) = fround fmt (s \<noteq> t) (m * n)"

fun fdiv :: "format \<Rightarrow> fl \<Rightarrow> fl \<Rightarrow> fl" where
  "fdiv fmt NaN b = NaN"
| "fdiv fmt a NaN = NaN"
| "fdiv fmt (Infinity s) (Infinity t) = NaN"
| "fdiv fmt (Infinity s) (Finite t n) = Infinity (s \<noteq> t)"
| "fdiv fmt (Finite s m) (Infinity t) = Finite (s \<noteq> t) 0"
| "fdiv fmt (Finite s m) (Finite t n) =
     (if n = 0 then (if m = 0 then NaN else Infinity (s \<noteq> t))
      else fround fmt (s \<noteq> t) (m / n))"

function isqrt :: "int \<Rightarrow> int" where
  "isqrt n = (if n < 4 then (if n \<le> 0 then 0 else 1)
              else let r = 2 * isqrt (n div 4) in if (r + 1) * (r + 1) \<le> n then r + 1 else r)"
  by pat_completeness auto
termination
  by (relation "measure nat") auto

definition sqrt_round :: "format \<Rightarrow> rat \<Rightarrow> rat" where
  \<comment> \<open>the square root of a magnitude \<open>0 < x\<close>, correctly rounded: the significand \<open>m\<close> is
      the integer square root at the scale of the result, and the exact root is compared
      with the midpoint \<open>m + 1/2\<close> through the squares\<close>
  "sqrt_round fmt x = (case fmt of (p, emax) \<Rightarrow> case quotient_of x of (a, b) \<Rightarrow>
     let k = max (ilog2 x div 2) (1 - emax) - p + 1;
         n = a * ipow 2 (- 2 * k);
         d = b * ipow 2 (2 * k);
         m = isqrt (n div d);
         h = (2 * m + 1) * (2 * m + 1) * d
     in scale 2 (if 4 * n < h then m else if h < 4 * n then m + 1
                 else if even m then m else m + 1) k)"

fun fsqrt :: "format \<Rightarrow> fl \<Rightarrow> fl" where
  "fsqrt fmt NaN = NaN"
| "fsqrt fmt (Infinity s) = (if s then NaN else Infinity False)"
| "fsqrt fmt (Finite s m) =
     (if m = 0 then Finite s 0 else if s then NaN else Finite False (sqrt_round fmt m))"

text \<open>
  The comparisons of C++: every comparison with a NaN is false, except \<^verbatim>\<open>!=\<close>, which is
  the negation of \<^verbatim>\<open>==\<close>; the two zeros are equal.
\<close>

fun fless :: "fl \<Rightarrow> fl \<Rightarrow> bool" where
  "fless NaN b = False"
| "fless a NaN = False"
| "fless (Infinity s) (Infinity t) = (s \<and> \<not> t)"
| "fless (Infinity s) (Finite t n) = s"
| "fless (Finite s m) (Infinity t) = (\<not> t)"
| "fless (Finite s m) (Finite t n) = (fval s m < fval t n)"

definition fgreater :: "fl \<Rightarrow> fl \<Rightarrow> bool" where
  "fgreater a b = fless b a"

fun feq :: "fl \<Rightarrow> fl \<Rightarrow> bool" where
  "feq (Finite s m) (Finite t n) = (fval s m = fval t n)"
| "feq (Infinity s) (Infinity t) = (s = t)"
| "feq a b = False"

definition fne :: "fl \<Rightarrow> fl \<Rightarrow> bool" where
  "fne a b = (\<not> feq a b)"

text \<open>Conversions: \<^verbatim>\<open>int\<close> to a format, and \<^verbatim>\<open>double\<close> to \<^verbatim>\<open>float\<close>
  (\<^verbatim>\<open>float\<close> to \<^verbatim>\<open>double\<close> is exact, the identity here).\<close>

definition of_int_fl :: "format \<Rightarrow> int \<Rightarrow> fl" where
  "of_int_fl fmt i = round_signed fmt False (of_int i)"

fun to_float :: "fl \<Rightarrow> fl" where
  "to_float (Finite s m) = fround binary32 s m"
| "to_float x = x"

text \<open>
  \<^verbatim>\<open>pow(x, 2)\<close> with a \<^verbatim>\<open>float\<close> base and an \<^verbatim>\<open>int\<close> exponent is computed in
  \<^verbatim>\<open>double\<close>; the exact square of a \<^verbatim>\<open>float\<close> is a \<^verbatim>\<open>double\<close>, and the result is that
  square.
\<close>

definition pow_2 :: "fl \<Rightarrow> fl" where
  "pow_2 x = fmul binary64 x x"

section \<open>Numbers as text\<close>

text \<open>
  The arguments of the templates \<^verbatim>\<open>set_attr\<close>, \<^verbatim>\<open>start\<close> and \<^verbatim>\<open>line_to\<close> are numbers of a
  type \<^verbatim>\<open>T\<close> chosen by the caller. \<^verbatim>\<open>std::to_string\<close> prints an integer in decimal and
  a \<^verbatim>\<open>float\<close> or \<^verbatim>\<open>double\<close> as \<^verbatim>\<open>printf("%f")\<close> does: the exact value rounded to six
  decimal places, ties to even. A NaN is printed as \<^verbatim>\<open>nan\<close>; the C library prints
  \<^verbatim>\<open>-nan\<close> for a NaN whose sign bit is set, which the model does not tell apart.
\<close>

datatype num = NInt int | NFloat fl | NDouble fl

definition digit_char :: "int \<Rightarrow> char" where
  "digit_char d = char_of (48 + d)"

function digits :: "int \<Rightarrow> string" where
  "digits n = (if n < 10 then [digit_char n] else digits (n div 10) @ [digit_char (n mod 10)])"
  by pat_completeness auto
termination
  by (relation "measure nat") auto

definition fixed6 :: "fl \<Rightarrow> string" where
  "fixed6 x = (case x of
     Finite s m \<Rightarrow> (case quotient_of m of (a, b) \<Rightarrow>
       let n = round_quot (a * 1000000) b; fr = digits (n mod 1000000)
       in (if s then ''-'' else []) @ digits (n div 1000000) @ ''.''
          @ replicate (6 - length fr) (CHR ''0'') @ fr)
   | Infinity s \<Rightarrow> (if s then ''-inf'' else ''inf'')
   | NaN \<Rightarrow> ''nan'')"

fun std_to_string :: "num \<Rightarrow> string" where
  "std_to_string (NInt i) = (if i < 0 then ''-'' @ digits (- i) else digits i)"
| "std_to_string (NFloat x) = fixed6 x"
| "std_to_string (NDouble x) = fixed6 x"

text \<open>The conversion of a \<^verbatim>\<open>T\<close> to \<^verbatim>\<open>float\<close>, as in \<^verbatim>\<open>this->x_start = x\<close>.\<close>

fun num_to_float :: "num \<Rightarrow> fl" where
  "num_to_float (NInt i) = of_int_fl binary32 i"
| "num_to_float (NFloat x) = x"
| "num_to_float (NDouble x) = to_float x"

text \<open>
  \<^verbatim>\<open>std::stof\<close> is \<^verbatim>\<open>strtof\<close> in the C locale on the characters up to the first NUL:
  white space, a sign, then a decimal number with an optional exponent, a hexadecimal
  number with an optional binary exponent, an infinity or a NaN; what follows the number
  is ignored. It throws \<^verbatim>\<open>invalid_argument\<close> when there is no number and
  \<^verbatim>\<open>out_of_range\<close> when \<^verbatim>\<open>strtof\<close> reports a range error: on overflow, and on a result
  that is both inexact and, after rounding, below the normal range.
\<close>

datatype error = invalid_argument | out_of_range

definition isspace :: "char \<Rightarrow> bool" where
  "isspace c = (c \<in> set [CHR 0x20, CHR 0x09, CHR 0x0A, CHR 0x0B, CHR 0x0C, CHR 0x0D])"

definition isdigit :: "char \<Rightarrow> bool" where
  "isdigit c = (CHR ''0'' \<le> c \<and> c \<le> CHR ''9'')"

definition isxdigit :: "char \<Rightarrow> bool" where
  "isxdigit c = (isdigit c \<or> CHR ''a'' \<le> c \<and> c \<le> CHR ''f'' \<or> CHR ''A'' \<le> c \<and> c \<le> CHR ''F'')"

definition xdigit_val :: "char \<Rightarrow> int" where
  "xdigit_val c = (if isdigit c then of_char c - 48
                   else if CHR ''a'' \<le> c then of_char c - 87 else of_char c - 55)"

definition tolower :: "char \<Rightarrow> char" where
  "tolower c = (if CHR ''A'' \<le> c \<and> c \<le> CHR ''Z'' then char_of (of_char c + (32::int)) else c)"

definition number_of :: "int \<Rightarrow> string \<Rightarrow> int" where
  "number_of b ds = foldl (\<lambda>n c. n * b + xdigit_val c) 0 ds"

definition parse_exponent :: "string \<Rightarrow> string \<Rightarrow> int" where
  \<comment> \<open>an exponent part counts only when a digit follows the mark and the sign\<close>
  "parse_exponent marks r = (case r of [] \<Rightarrow> 0 | c # r1 \<Rightarrow>
     if c \<in> set marks then
       (let neg = (r1 \<noteq> [] \<and> hd r1 = CHR ''-'');
            r2 = (if r1 \<noteq> [] \<and> hd r1 \<in> set ''+-'' then tl r1 else r1);
            ds = takeWhile isdigit r2
        in if ds = [] then 0 else if neg then - number_of 10 ds else number_of 10 ds)
     else 0)"

definition parse_digits :: "(char \<Rightarrow> bool) \<Rightarrow> string \<Rightarrow> string \<times> string \<times> string" where
  \<comment> \<open>the digits before the point, the digits after it, and the rest\<close>
  "parse_digits is_digit s = (let ip = takeWhile is_digit s; r = dropWhile is_digit s
     in if r \<noteq> [] \<and> hd r = CHR ''.''
        then (ip, takeWhile is_digit (tl r), dropWhile is_digit (tl r))
        else (ip, [], r))"

definition parse_decimal :: "string \<Rightarrow> rat option" where
  "parse_decimal s = (case parse_digits isdigit s of (ip, fp, r) \<Rightarrow>
     if ip = [] \<and> fp = [] then None
     else Some (scale 10 (number_of 10 (ip @ fp)) (parse_exponent ''eE'' r - int (length fp))))"

definition parse_hex :: "string \<Rightarrow> rat option" where
  \<comment> \<open>the text after \<^verbatim>\<open>0x\<close>; without a hexadecimal digit only the \<^verbatim>\<open>0\<close> is a number\<close>
  "parse_hex s = (case parse_digits isxdigit s of (ip, fp, r) \<Rightarrow>
     if ip = [] \<and> fp = [] then Some 0
     else Some (scale 2 (number_of 16 (ip @ fp)) (parse_exponent ''pP'' r - 4 * int (length fp))))"

definition parse_number :: "string \<Rightarrow> rat option" where
  "parse_number s = (if map tolower (take 2 s) = ''0x'' then parse_hex (drop 2 s)
                     else parse_decimal s)"

definition strtof_round :: "bool \<Rightarrow> rat \<Rightarrow> error + fl" where
  "strtof_round neg v = (if v = 0 then Inr (Finite neg 0)
     else case round_mag binary32 v of
       None \<Rightarrow> Inl out_of_range
     | Some y \<Rightarrow>
         if y \<noteq> v \<and> quantize 24 (ilog2 v) v < scale 2 1 (- 126) then Inl out_of_range
         else Inr (Finite neg y))"

definition stof :: "string \<Rightarrow> error + fl" where
  "stof str = (let s = dropWhile isspace (takeWhile (\<lambda>c. c \<noteq> CHR 0x00) str);
                   neg = (s \<noteq> [] \<and> hd s = CHR ''-'');
                   t = (if s \<noteq> [] \<and> hd s \<in> set ''+-'' then tl s else s)
     in case parse_number t of
          Some v \<Rightarrow> strtof_round neg v
        | None \<Rightarrow>
            if map tolower (take 3 t) = ''inf'' then Inr (Infinity neg)
            else if map tolower (take 3 t) = ''nan'' then Inr NaN
            else Inl invalid_argument)"

section \<open>The attribute map\<close>

text \<open>
  \<^verbatim>\<open>std::map<std::string, std::string>\<close> keeps its entries in the order of the keys, which
  is the order of the iteration in \<^verbatim>\<open>to_string_attrib\<close>: an association list sorted by key.
  \<^verbatim>\<open>find\<close> is \<^const>\<open>map_of\<close>; \<^verbatim>\<open>attr[key] = value\<close> inserts or overwrites; reading
  \<^verbatim>\<open>attr[key]\<close> inserts an empty value under a key that is absent.
\<close>

type_synonym attrs = "(string \<times> string) list"

fun assign :: "string \<Rightarrow> string \<Rightarrow> attrs \<Rightarrow> attrs" where
  "assign k v [] = [(k, v)]"
| "assign k v ((k', v') # m) =
     (if k = k' then (k, v) # m
      else if k < k' then (k, v) # (k', v') # m
      else (k', v') # assign k v m)"

definition index :: "string \<Rightarrow> attrs \<Rightarrow> string \<times> attrs" where
  "index k m = (case map_of m k of Some v \<Rightarrow> (v, m) | None \<Rightarrow> ([], assign k [] m))"

definition map_init :: "(string \<times> string) list \<Rightarrow> attrs" where
  \<comment> \<open>the map of an initializer list: of two entries with one key the first stays\<close>
  "map_init kvs = foldl (\<lambda>m (k, v). if map_of m k = None then assign k v m else m) [] kvs"

section \<open>Elements\<close>

text \<open>
  The members of \<^verbatim>\<open>Element\<close> are a record; \<^verbatim>\<open>Path\<close> extends it by its two private
  members. The children are shared pointers: addresses of objects in a store. A method of a
  class is a function of the object, and returns the object as it leaves it.
\<close>

type_synonym addr = nat

record element =
  attr :: attrs
  content :: string
  children :: "addr list"

record path = element +
  x_start :: fl
  y_start :: fl

datatype attr_value = Text_value string | Num_value num

fun set_attr :: "string \<Rightarrow> attr_value \<Rightarrow> 'a element_scheme \<Rightarrow> 'a element_scheme" where
  "set_attr key (Num_value v) this = this\<lparr>attr := assign key (std_to_string v) (attr this)\<rparr>"
| "set_attr key (Text_value v) this = this\<lparr>attr := assign key v (attr this)\<rparr>"

text \<open>
  A method that reads a number may throw, and may have changed the object before it throws:
  its result is the value or the exception, together with the object. \<open>seq\<close> runs a
  second method after a first one that has returned.
\<close>

type_synonym ('s, 'a) call = "'s \<Rightarrow> (error + 'a) \<times> 's"

definition return :: "'a \<Rightarrow> ('s, 'a) call" where
  "return a this = (Inr a, this)"

definition seq :: "('s, 'a) call \<Rightarrow> ('a \<Rightarrow> ('s, 'b) call) \<Rightarrow> ('s, 'b) call" where
  "seq f g this = (case f this of (Inl e, this') \<Rightarrow> (Inl e, this') | (Inr a, this') \<Rightarrow> g a this')"

definition stof_attr :: "string \<Rightarrow> ('a element_scheme, fl) call" where
  \<comment> \<open>\<^verbatim>\<open>std::stof(this->attr[key])\<close>\<close>
  "stof_attr key this = (case index key (attr this) of (v, m) \<Rightarrow> (stof v, this\<lparr>attr := m\<rparr>))"

definition get_width :: "('a element_scheme, fl) call" where
  "get_width this = (if map_of (attr this) ''width'' \<noteq> None then stof_attr ''width'' this
                     else return NaN this)"

definition get_height :: "('a element_scheme, fl) call" where
  "get_height this = (if map_of (attr this) ''height'' \<noteq> None then stof_attr ''height'' this
                      else return NaN this)"

subsection \<open>Path\<close>

definition start :: "num \<Rightarrow> num \<Rightarrow> path \<Rightarrow> path" where
  "start x y this = this\<lparr>attr := assign ''d'' (''M '' @ std_to_string x @ '' '' @ std_to_string y)
                                   (attr this),
                          x_start := num_to_float x, y_start := num_to_float y\<rparr>"

definition line_to :: "num \<Rightarrow> num \<Rightarrow> path \<Rightarrow> path" where
  "line_to x y this = (if map_of (attr this) ''d'' = None then start x y this
     else case index ''d'' (attr this) of (d, m) \<Rightarrow>
       this\<lparr>attr := assign ''d'' (d @ ('' L '' @ std_to_string x @ '' '' @ std_to_string y)) m\<rparr>)"

definition line_to_pair :: "fl \<times> fl \<Rightarrow> path \<Rightarrow> path" where
  "line_to_pair coord this = line_to (NFloat (fst coord)) (NFloat (snd coord)) this"

definition to_origin :: "path \<Rightarrow> path" where
  "to_origin this = line_to (NFloat (x_start this)) (NFloat (y_start this)) this"

text \<open>\<^verbatim>\<open>Path\<close> has no constructor of its own: the attribute map is empty and the two
  start members hold whatever the memory held, here two arbitrary values.\<close>

definition Path_new :: "fl \<Rightarrow> fl \<Rightarrow> path" where
  "Path_new xs ys = \<lparr>attr = [], content = [], children = [], x_start = xs, y_start = ys\<rparr>"

subsection \<open>Line\<close>

definition Line_new :: "fl \<Rightarrow> fl \<Rightarrow> fl \<Rightarrow> fl \<Rightarrow> element" where
  \<comment> \<open>the parameters are in the order \<^verbatim>\<open>x1, x2, y1, y2\<close>\<close>
  "Line_new x1 x2 y1 y2 =
     \<lparr>attr = map_init [(''x1'', std_to_string (NFloat x1)), (''x2'', std_to_string (NFloat x2)),
                        (''y1'', std_to_string (NFloat y1)), (''y2'', std_to_string (NFloat y2))],
      content = [], children = []\<rparr>"

definition x1 :: "(element, fl) call" where "x1 = stof_attr ''x1''"
definition x2 :: "(element, fl) call" where "x2 = stof_attr ''x2''"
definition y1 :: "(element, fl) call" where "y1 = stof_attr ''y1''"
definition y2 :: "(element, fl) call" where "y2 = stof_attr ''y2''"

text \<open>
  C++ leaves the order in which the operands of an arithmetic operator are evaluated
  open; the model evaluates them from left to right. The order shows only in which
  exception is thrown, and which key has been inserted, when two attributes cannot be read.
  An operation on two \<^verbatim>\<open>float\<close> values is done in \<^verbatim>\<open>float\<close>, one with a \<^verbatim>\<open>double\<close>
  operand in \<^verbatim>\<open>double\<close>, and every operation rounds by itself: no multiplication is
  fused with an addition.
\<close>

definition get_slope :: "(element, fl) call" where
  "get_slope = seq y2 (\<lambda>c. seq y1 (\<lambda>a. seq x2 (\<lambda>d. seq x1 (\<lambda>b.
     return (fdiv binary32 (fsub binary32 c a) (fsub binary32 d b))))))"

definition Line_get_width :: "(element, fl) call" where
  "Line_get_width = seq x2 (\<lambda>b. seq x1 (\<lambda>a. return (fabs (fsub binary32 b a))))"

definition Line_get_height :: "(element, fl) call" where
  "Line_get_height = seq y2 (\<lambda>b. seq y1 (\<lambda>a. return (fabs (fsub binary32 b a))))"

definition get_length :: "(element, fl) call" where
  "get_length = seq Line_get_width (\<lambda>w. seq Line_get_height (\<lambda>h.
     return (to_float (fsqrt binary64 (fadd binary64 (pow_2 w) (pow_2 h))))))"

definition outside :: "fl \<Rightarrow> (element, bool) call" where
  \<comment> \<open>\<^verbatim>\<open>(x_a > x1() && x_a > x2()) || (x_a < x1() && x_a < x2())\<close>, with the calls that
      the short-circuit operators make\<close>
  "outside x_a =
     seq (seq x1 (\<lambda>a. if fgreater x_a a then seq x2 (\<lambda>b. return (fgreater x_a b)) else return False))
       (\<lambda>above. if above then return True
                 else seq x1 (\<lambda>a. if fless x_a a then seq x2 (\<lambda>b. return (fless x_a b))
                                   else return False))"

definition along :: "fl \<Rightarrow> (element, fl \<times> fl) call" where
  "along percent = seq x1 (\<lambda>a. seq x2 (\<lambda>b.
     if fne a b then
       seq get_length (\<lambda>l. let length = fmul binary32 percent l in
       seq get_slope (\<lambda>s. let discrim = to_float (fsqrt binary64
           (fmul binary64 (fmul binary64 (Finite False 4) (pow_2 length))
              (fdiv binary64 (Finite False 1) (fadd binary64 (Finite False 1) (pow_2 s))))) in
       seq x1 (\<lambda>a. let x_a = fdiv binary32 (fadd binary32 (fmul binary32 (Finite False 2) a) discrim)
                                 (Finite False 2) in
       seq x1 (\<lambda>a. let x_b = fdiv binary32 (fsub binary32 (fmul binary32 (Finite False 2) a) discrim)
                                 (Finite False 2) in
       seq (outside x_a) (\<lambda>out. let x_pos = (if out then x_b else x_a) in
       seq get_slope (\<lambda>s. seq x1 (\<lambda>a. seq y1 (\<lambda>c.
         return (x_pos, fadd binary32 (fmul binary32 s (fsub binary32 x_pos a)) c)))))))))
     else
       seq x1 (\<lambda>x_pos. seq y1 (\<lambda>c. seq y2 (\<lambda>d.
         if fgreater c d then
           seq y1 (\<lambda>c. seq get_length (\<lambda>l.
             return (x_pos, fsub binary32 c (fmul binary32 percent l))))
         else
           seq y1 (\<lambda>c. seq get_length (\<lambda>l.
             return (x_pos, fadd binary32 c (fmul binary32 percent l)))))))))"

section \<open>The tree of objects\<close>

text \<open>
  An object is of one of the seven classes that derive from \<^verbatim>\<open>Element\<close>. The store holds
  every object, those on the stack of the caller as well as those that \<^verbatim>\<open>make_shared\<close>
  has allocated; an address is an index into it.
\<close>

datatype node = SVG element | Path path | Text element | Group element | Line element
  | Rect element | Circle element

type_synonym store = "node list"

fun tag :: "node \<Rightarrow> string" where
  "tag (SVG e) = ''svg''"
| "tag (Path p) = ''path''"
| "tag (Text e) = ''text''"
| "tag (Group e) = ''g''"
| "tag (Line e) = ''line''"
| "tag (Rect e) = ''rect''"
| "tag (Circle e) = ''circle''"

fun base :: "node \<Rightarrow> element" where
  "base (SVG e) = e"
| "base (Path p) = \<lparr>attr = attr p, content = content p, children = children p\<rparr>"
| "base (Text e) = e"
| "base (Group e) = e"
| "base (Line e) = e"
| "base (Rect e) = e"
| "base (Circle e) = e"

fun rebase :: "element \<Rightarrow> node \<Rightarrow> node" where
  "rebase e (SVG _) = SVG e"
| "rebase e (Path p) = Path (p\<lparr>attr := attr e, content := content e, children := children e\<rparr>)"
| "rebase e (Text _) = Text e"
| "rebase e (Group _) = Group e"
| "rebase e (Line _) = Line e"
| "rebase e (Rect _) = Rect e"
| "rebase e (Circle _) = Circle e"

text \<open>The virtual \<^verbatim>\<open>get_width\<close> and \<^verbatim>\<open>get_height\<close>: \<^verbatim>\<open>Line\<close> overrides both.\<close>

definition lift :: "(element, 'a) call \<Rightarrow> (node, 'a) call" where
  "lift f n = (case f (base n) of (r, e) \<Rightarrow> (r, rebase e n))"

fun node_get_width :: "(node, fl) call" where
  "node_get_width (Line e) = lift Line_get_width (Line e)"
| "node_get_width n = lift get_width n"

fun node_get_height :: "(node, fl) call" where
  "node_get_height (Line e) = lift Line_get_height (Line e)"
| "node_get_height n = lift get_height n"

subsection \<open>Constructors\<close>

definition Element_new :: "attrs \<Rightarrow> element" where
  "Element_new m = \<lparr>attr = m, content = [], children = []\<rparr>"

definition SVG_new :: element where
  "SVG_new = Element_new (map_init [(''xmlns'', ''http://www.w3.org/2000/svg'')])"

definition Text_new :: "fl \<Rightarrow> fl \<Rightarrow> string \<Rightarrow> element" where
  "Text_new x y c =
     (set_attr ''y'' (Text_value (std_to_string (NFloat y)))
       (set_attr ''x'' (Text_value (std_to_string (NFloat x))) (Element_new [])))\<lparr>content := c\<rparr>"

definition Rect_new :: "fl \<Rightarrow> fl \<Rightarrow> fl \<Rightarrow> fl \<Rightarrow> element" where
  "Rect_new x y width height = Element_new (map_init
     [(''x'', std_to_string (NFloat x)), (''y'', std_to_string (NFloat y)),
      (''width'', std_to_string (NFloat width)), (''height'', std_to_string (NFloat height))])"

definition Circle_new :: "fl \<Rightarrow> fl \<Rightarrow> fl \<Rightarrow> element" where
  "Circle_new cx cy radius = Element_new (map_init
     [(''cx'', std_to_string (NFloat cx)), (''cy'', std_to_string (NFloat cy)),
      (''r'', std_to_string (NFloat radius))])"

subsection \<open>Adding children\<close>

text \<open>
  \<^verbatim>\<open>add_child(T node)\<close> receives the node by value, \<^verbatim>\<open>make_shared<T>(node)\<close> copies it
  into a new object, and the pointer to that object is pushed to the children of \<^verbatim>\<open>this\<close>
  and returned. The copy of a node copies its vector of children, that is the pointers.
  The variadic overload adds its first argument, then the others.
\<close>

definition push_back :: "addr \<Rightarrow> node \<Rightarrow> node" where
  "push_back a n = rebase ((base n)\<lparr>children := children (base n) @ [a]\<rparr>) n"

definition add_child :: "node \<Rightarrow> addr \<Rightarrow> store \<Rightarrow> addr \<times> store" where
  "add_child node this h = (let a = length h; h1 = h @ [node]
                            in (a, h1[this := push_back a (h1 ! this)]))"

fun add_children :: "node list \<Rightarrow> addr \<Rightarrow> store \<Rightarrow> store" where
  "add_children [] this h = h"
| "add_children [node] this h = snd (add_child node this h)"
| "add_children (node # args) this h = add_children args this (snd (add_child node this h))"

subsection \<open>Serialization\<close>

text \<open>
  The macro \<^verbatim>\<open>to_string_attrib\<close> is the loop
  \<^verbatim>\<open>ret += " " + it->first + "=" + "\"" + it->second += "\""\<close> over the entries of the map.
  The operator \<^verbatim>\<open>+\<close> binds tighter than \<^verbatim>\<open>+=\<close>, and \<^verbatim>\<open>+=\<close> groups to the right: the
  statement is \<^verbatim>\<open>ret += ((" " + it->first + "=" + "\"" + it->second) += "\"")\<close>. The inner
  \<^verbatim>\<open>+=\<close> appends the closing quote to the temporary string that the sum is, and the outer
  one appends that temporary to \<^verbatim>\<open>ret\<close>. The function returns \<^verbatim>\<open>ret\<close> and the entries
  as the iterator leaves them.
\<close>

fun to_string_attrib :: "string \<Rightarrow> attrs \<Rightarrow> string \<times> attrs" where
  "to_string_attrib ret [] = (ret, [])"
| "to_string_attrib ret ((first, second) # rest) =
     (let tmp = '' '' @ first @ ''='' @ [CHR 0x22] @ second;
          tmp = tmp @ [CHR 0x22]
      in case to_string_attrib (ret @ tmp) rest of
           (ret', rest') \<Rightarrow> (ret', (first, second) # rest'))"

text \<open>
  \<^verbatim>\<open>to_string\<close> is virtual; \<^verbatim>\<open>Text\<close> overrides it. The recursion of
  \<^verbatim>\<open>Element::to_string\<close> through the children ends only when no object is its own
  descendant, so the function takes fuel, the depth to which it may recurse, and returns
  \<open>None\<close> when the fuel runs out (and at an address with no object). It returns the text
  and the store as the call leaves it.
\<close>

fun for_children :: "(store \<Rightarrow> addr \<Rightarrow> (string \<times> store) option) \<Rightarrow> string \<Rightarrow> store \<Rightarrow> addr list
    \<Rightarrow> (string \<times> store) option" where
  "for_children child_to_string ret h [] = Some (ret, h)"
| "for_children child_to_string ret h (it # rest) =
     (case child_to_string h it of
        None \<Rightarrow> None
      | Some (s, h') \<Rightarrow> for_children child_to_string (ret @ (s @ [CHR 0x0A])) h' rest)"

definition Text_to_string :: "store \<Rightarrow> addr \<Rightarrow> nat \<Rightarrow> (string \<times> store) option" where
  "Text_to_string h this indent_level =
     (let n = h ! this; indent = replicate indent_level (CHR 0x09)
      in case to_string_attrib (indent @ ''<text'') (attr (base n)) of (ret, m) \<Rightarrow>
           Some (ret @ (''>'' @ content (base n) @ ''</text>''),
                 h[this := rebase ((base n)\<lparr>attr := m\<rparr>) n]))"

definition Element_to_string :: "(store \<Rightarrow> addr \<Rightarrow> (string \<times> store) option) \<Rightarrow> store \<Rightarrow> addr \<Rightarrow> nat
    \<Rightarrow> (string \<times> store) option" where
  "Element_to_string child_to_string h this indent_level =
     (let n = h ! this; indent = replicate indent_level (CHR 0x09)
      in case to_string_attrib (indent @ ''<'' @ tag n) (attr (base n)) of (ret, m) \<Rightarrow>
           let h1 = h[this := rebase ((base n)\<lparr>attr := m\<rparr>) n]
           in if children (base n) \<noteq> [] then
                (case for_children child_to_string (ret @ [CHR 0x3E, CHR 0x0A]) h1
                        (children (base n)) of
                   None \<Rightarrow> None
                 | Some (ret', h2) \<Rightarrow> Some (ret' @ (indent @ ''</'' @ tag n @ ''>''), h2))
              else Some (ret @ '' />'', h1))"

fun is_Text :: "node \<Rightarrow> bool" where
  "is_Text (Text e) = True"
| "is_Text n = False"

fun to_string :: "nat \<Rightarrow> store \<Rightarrow> addr \<Rightarrow> nat \<Rightarrow> (string \<times> store) option" where
  "to_string 0 h this indent_level = None"
| "to_string (Suc fuel) h this indent_level =
     (if length h \<le> this then None
      else if is_Text (h ! this) then Text_to_string h this indent_level
      else Element_to_string (\<lambda>h' it. to_string fuel h' it (Suc indent_level)) h this indent_level)"

text \<open>
  The objects that \<open>this\<close> reaches through pointers to children, and the stores in which
  \<open>this\<close> is the root of a finite tree: every pointer under it leads to an object, and no
  chain of pointers goes on for ever.
\<close>

inductive_set reach :: "store \<Rightarrow> addr \<Rightarrow> addr set" for h :: store and this :: addr where
  root: "this \<in> reach h this"
| child: "a \<in> reach h this \<Longrightarrow> a < length h \<Longrightarrow> c \<in> set (children (base (h ! a)))
          \<Longrightarrow> c \<in> reach h this"

inductive tree :: "store \<Rightarrow> addr \<Rightarrow> bool" for h :: store where
  node: "this < length h \<Longrightarrow> (\<And>c. c \<in> set (children (base (h ! this))) \<Longrightarrow> tree h c)
         \<Longrightarrow> tree h this"

text \<open>
  What the loop of \<^verbatim>\<open>to_string_attrib\<close> appends: for each entry a space, the name, an
  equals sign and the value between double quotes.
\<close>

definition attrib_text :: "attrs \<Rightarrow> string" where
  "attrib_text m = concat (map (\<lambda>(k, v). '' '' @ k @ ''='' @ [CHR 0x22] @ v @ [CHR 0x22]) m)"

subsection \<open>An example\<close>

text \<open>
  Four objects of a caller: a root container, and a rectangle, a text label and a group
  that are to become its children. The rectangle has a width and no height.
\<close>

definition drawing :: store where
  "drawing = [SVG SVG_new,
              Rect (Element_new [(''width'', ''12.5'')]),
              Text (Text_new (Finite False 1) (Finite False 2) ''hi''),
              Group (Element_new [])]"

definition drawing_args :: "node list" where
  "drawing_args = [drawing ! 1, drawing ! 2, drawing ! 3]"

text \<open>The drawing once the root has been given the three children in one call.\<close>

definition drawn :: store where
  "drawn = add_children drawing_args 0 drawing"

section \<open>The numbers at work\<close>

text \<open>
  Rounding to nearest, ties to even, in both formats; overflow to an infinity; a
  subnormal result; the square root of 2 in \<^verbatim>\<open>double\<close>, and then as a \<^verbatim>\<open>float\<close>.
\<close>

lemma rounding_examples:
  "fdiv binary32 (Finite False 1) (Finite False 10) = Finite False (13421773 / 134217728)"
  "fdiv binary64 (Finite False 1) (Finite False 3)
     = Finite False (6004799503160661 / 18014398509481984)"
  "fadd binary32 (Finite False 16777216) (Finite False 1) = Finite False 16777216"
  "fadd binary32 (Finite False 16777216) (Finite False 3) = Finite False 16777220"
  "of_int_fl binary32 16777217 = Finite False 16777216"
  "fmul binary32 (Finite False (scale 2 1 100)) (Finite True (scale 2 1 100)) = Infinity True"
  "fmul binary32 (Finite False (scale 2 1 (- 100))) (Finite True (scale 2 3 (- 50)))
     = Finite True (scale 2 1 (- 148))"
  "fsub binary32 (Finite False 3) (Finite False 3) = Finite False 0"
  "fsqrt binary64 (Finite False 2) = Finite False (6369051672525773 / 4503599627370496)"
  "to_float (fsqrt binary64 (Finite False 2)) = Finite False (11863283 / 8388608)"
  by code_simp+

text \<open>Printing and reading.\<close>

lemma printing_examples:
  "std_to_string (NInt (- 120)) = ''-120''"
  "std_to_string (NFloat (Finite True 0)) = ''-0.000000''"
  "std_to_string (NFloat (Finite False (1 / 128))) = ''0.007812''"
  "std_to_string (NFloat (Finite False (3 / 128))) = ''0.023438''"
  "std_to_string (NDouble (Finite False (scale 10 1 (- 7)))) = ''0.000000''"
  by code_simp+

lemma reading_examples:
  "stof [] = Inl invalid_argument"
  "stof ''abc'' = Inl invalid_argument"
  "stof ''.'' = Inl invalid_argument"
  "stof ''  -1.5e2xyz'' = Inr (Finite True 150)"
  "stof ''0.1'' = Inr (Finite False (13421773 / 134217728))"
  "stof ''1e'' = Inr (Finite False 1)"
  "stof ''0x1.8p1'' = Inr (Finite False 3)"
  "stof ''-Infinity'' = Inr (Infinity True)"
  "stof ''nan'' = Inr NaN"
  "stof ''1e39'' = Inl out_of_range"
  "stof ''1e-46'' = Inl out_of_range"
  by code_simp+

section \<open>Properties of the attribute map and of the methods of one object\<close>

lemma map_of_assign_same: "map_of (assign k v m) k = Some v"
  by (induction m) auto

lemma map_of_assign_other: "k' \<noteq> k \<Longrightarrow> map_of (assign k v m) k' = map_of m k'"
  by (induction m) auto

lemma index_present: "map_of m k = Some v \<Longrightarrow> index k m = (v, m)"
  by (simp add: index_def)

lemma stof_attr_present: "map_of (attr this) k = Some v \<Longrightarrow> stof_attr k this = (stof v, this)"
  by (simp add: stof_attr_def index_present)

lemma rebase_base: "rebase (base n) n = n"
  by (cases n) auto

lemma base_rebase: "base (rebase e n) = e"
  by (cases n) auto

lemma rebase_rebase: "rebase e' (rebase e n) = rebase e' n"
  by (cases n) auto

lemma tag_rebase: "tag (rebase e n) = tag n"
  by (cases n) auto

lemma is_Text_rebase: "is_Text (rebase e n) = is_Text n"
  by (cases n) auto

lemma fixed6_twelve_and_a_half: "fixed6 (Finite False (25 / 2)) = ''12.500000''"
  by code_simp

lemma stof_twelve_and_a_half: "stof ''12.500000'' = Inr (Finite False (25 / 2))"
  by code_simp

text \<open>
  \<^bold>\<open>C6.\<close> On a node that is not a segment, \<^verbatim>\<open>get_width\<close> returns NaN, and throws nothing,
  when the node has no attribute \<^verbatim>\<open>width\<close>, and returns what \<^verbatim>\<open>std::stof\<close> makes of the
  stored text when it has one; \<^verbatim>\<open>get_height\<close> does the same with \<^verbatim>\<open>height\<close>. The node is
  as it was.
\<close>

theorem get_width_missing_or_parsed:
  assumes "\<forall>e. n \<noteq> Line e"
  shows "(map_of (attr (base n)) ''width'' = None \<longrightarrow> node_get_width n = (Inr NaN, n))
       \<and> (\<forall>v. map_of (attr (base n)) ''width'' = Some v \<longrightarrow> node_get_width n = (stof v, n))
       \<and> (map_of (attr (base n)) ''height'' = None \<longrightarrow> node_get_height n = (Inr NaN, n))
       \<and> (\<forall>v. map_of (attr (base n)) ''height'' = Some v \<longrightarrow> node_get_height n = (stof v, n))"
proof -
  have w: "node_get_width n = lift get_width n" and h: "node_get_height n = lift get_height n"
    using assms by (cases n; simp)+
  show ?thesis
    unfolding w h
    by (auto simp: lift_def get_width_def get_height_def return_def stof_attr_present rebase_base)
qed

theorem get_width_missing_or_parsed_witness:
  "(\<forall>e. drawing ! 1 \<noteq> Line e)
   \<and> map_of (attr (base (drawing ! 1))) ''height'' = None
   \<and> node_get_height (drawing ! 1) = (Inr NaN, drawing ! 1)
   \<and> map_of (attr (base (drawing ! 1))) ''width'' = Some ''12.5''
   \<and> node_get_width (drawing ! 1) = (Inr (Finite False (25 / 2)), drawing ! 1)"
proof -
  have 1: "\<forall>e. drawing ! 1 \<noteq> Line e" by (simp add: drawing_def)
  have 2: "map_of (attr (base (drawing ! 1))) ''height'' = None"
    and 3: "map_of (attr (base (drawing ! 1))) ''width'' = Some ''12.5''"
    by (simp_all add: drawing_def Element_new_def)
  have 4: "stof ''12.5'' = Inr (Finite False (25 / 2))" by code_simp
  show ?thesis
    using get_width_missing_or_parsed [OF 1] 1 2 3 4 by simp
qed

text \<open>
  \<^bold>\<open>C7.\<close> \<^verbatim>\<open>set_attr\<close> stores the value under the name as text, a number as
  \<^verbatim>\<open>std::to_string\<close> prints it; whatever the name held before is overwritten, every other
  name keeps its value, and the object returned is \<open>this\<close> with nothing but its attribute
  map changed. After \<^verbatim>\<open>set_attr("width", 12.5)\<close>, \<^verbatim>\<open>get_width()\<close> returns 12.5.
\<close>

theorem set_attr_stores_text:
  "map_of (attr (set_attr key v this)) key
     = Some (case v of Text_value s \<Rightarrow> s | Num_value x \<Rightarrow> std_to_string x)
   \<and> (\<forall>k. k \<noteq> key \<longrightarrow> map_of (attr (set_attr key v this)) k = map_of (attr this) k)
   \<and> set_attr key v this = this\<lparr>attr := attr (set_attr key v this)\<rparr>
   \<and> get_width (set_attr ''width'' (Num_value (NDouble (Finite False (25 / 2)))) this)
       = (Inr (Finite False (25 / 2)),
          set_attr ''width'' (Num_value (NDouble (Finite False (25 / 2)))) this)"
  by (cases v)
    (simp_all add: map_of_assign_same map_of_assign_other get_width_def stof_attr_present
      fixed6_twelve_and_a_half stof_twelve_and_a_half)

theorem set_attr_stores_text_witness:
  "''height'' \<noteq> ''width''
   \<and> map_of (attr (set_attr ''width'' (Num_value (NInt 7)) (Element_new [(''height'', ''3''), (''width'', ''4'')])))
        ''width'' = Some ''7''
   \<and> map_of (attr (set_attr ''width'' (Num_value (NInt 7)) (Element_new [(''height'', ''3''), (''width'', ''4'')])))
        ''height'' = Some ''3''"
proof -
  have 1: "std_to_string (NInt 7) = ''7''" by code_simp
  have 2: "map_of (attr (Element_new [(''height'', ''3''), (''width'', ''4'')])) ''height'' = Some ''3''"
    by (simp add: Element_new_def)
  show ?thesis
    using set_attr_stores_text [of "''width''" "Num_value (NInt 7)"
        "Element_new [(''height'', ''3''), (''width'', ''4'')]"] 1 2
    by simp
qed

text \<open>
  \<^bold>\<open>C2.\<close> The claim is that \<^verbatim>\<open>start\<close>, \<^verbatim>\<open>line_to\<close> and \<^verbatim>\<open>to_origin\<close> all keep the value
  that \<^verbatim>\<open>d\<close> has as a prefix of the new one. \<^verbatim>\<open>start\<close> does not: it assigns to \<^verbatim>\<open>d\<close>,
  as its comment says. After \<^verbatim>\<open>start(0, 0)\<close> the value is \<^verbatim>\<open>M 0 0\<close>, and after a second
  \<^verbatim>\<open>start(5, 5)\<close> it is \<^verbatim>\<open>M 5 5\<close>.
\<close>

theorem start_overwrites_d:
  "map_of (attr (start (NInt 0) (NInt 0) (Path_new (Finite False 0) (Finite False 0)))) ''d''
     = Some ''M 0 0''
   \<and> map_of (attr (start (NInt 5) (NInt 5)
        (start (NInt 0) (NInt 0) (Path_new (Finite False 0) (Finite False 0))))) ''d''
     = Some ''M 5 5''
   \<and> \<not> prefix ''M 0 0'' ''M 5 5''"
  by (simp add: start_def Path_new_def map_of_assign_same) code_simp

text \<open>
  \<^bold>\<open>C2\<close>, as amended. On a path whose \<^verbatim>\<open>d\<close> has the value \<open>d\<close>, \<^verbatim>\<open>line_to\<close> (with two numbers
  or with a pair) and \<^verbatim>\<open>to_origin\<close> append one line command to \<open>d\<close>, and \<^verbatim>\<open>start\<close>
  replaces \<open>d\<close> by one move command.
\<close>

theorem line_to_appends_start_overwrites:
  assumes "map_of (attr this) ''d'' = Some d"
  shows "map_of (attr (line_to x y this)) ''d''
           = Some (d @ '' L '' @ std_to_string x @ '' '' @ std_to_string y)
       \<and> map_of (attr (line_to_pair (a, b) this)) ''d''
           = Some (d @ '' L '' @ fixed6 a @ '' '' @ fixed6 b)
       \<and> map_of (attr (to_origin this)) ''d''
           = Some (d @ '' L '' @ fixed6 (x_start this) @ '' '' @ fixed6 (y_start this))
       \<and> prefix d (the (map_of (attr (line_to x y this)) ''d''))
       \<and> prefix d (the (map_of (attr (to_origin this)) ''d''))
       \<and> map_of (attr (start x y this)) ''d''
           = Some (''M '' @ std_to_string x @ '' '' @ std_to_string y)"
  using assms
  by (simp add: line_to_def line_to_pair_def to_origin_def start_def index_present
      map_of_assign_same)

theorem line_to_appends_start_overwrites_witness:
  "map_of (attr (start (NInt 0) (NInt 0) (Path_new NaN NaN))) ''d'' = Some ''M 0 0''
   \<and> map_of (attr (line_to (NInt 10) (NInt 10) (start (NInt 0) (NInt 0) (Path_new NaN NaN)))) ''d''
       = Some ''M 0 0 L 10 10''"
proof -
  have 1: "map_of (attr (start (NInt 0) (NInt 0) (Path_new NaN NaN))) ''d'' = Some ''M 0 0''"
    by (simp add: start_def Path_new_def map_of_assign_same) code_simp
  have 2: "std_to_string (NInt 10) = ''10''" by code_simp
  show ?thesis
    using line_to_appends_start_overwrites [OF 1, of "NInt 10" "NInt 10"] 1 2 by simp
qed

text \<open>
  \<^bold>\<open>C3.\<close> The claim is that \<^verbatim>\<open>start(0, 0)\<close>, \<^verbatim>\<open>line_to(10, 10)\<close>, \<^verbatim>\<open>to_origin()\<close> leave
  \<^verbatim>\<open>M 0 0 L 10 10 L 0 0\<close> in \<^verbatim>\<open>d\<close>. The start point is kept in two \<^verbatim>\<open>float\<close> members, and
  \<^verbatim>\<open>to_origin\<close> prints them as \<^verbatim>\<open>std::to_string\<close> prints a \<^verbatim>\<open>float\<close>, with six decimals:
  with \<^verbatim>\<open>int\<close> arguments the value is \<^verbatim>\<open>M 0 0 L 10 10 L 0.000000 0.000000\<close>, and with
  \<^verbatim>\<open>float\<close> arguments every number has six decimals.
\<close>

theorem to_origin_prints_floats:
  "map_of (attr (to_origin (line_to (NInt 10) (NInt 10)
      (start (NInt 0) (NInt 0) (Path_new (Finite False 0) (Finite False 0)))))) ''d''
     = Some ''M 0 0 L 10 10 L 0.000000 0.000000''
   \<and> map_of (attr (to_origin (line_to (NFloat (Finite False 10)) (NFloat (Finite False 10))
      (start (NFloat (Finite False 0)) (NFloat (Finite False 0))
        (Path_new (Finite False 0) (Finite False 0)))))) ''d''
     = Some ''M 0.000000 0.000000 L 10.000000 10.000000 L 0.000000 0.000000''
   \<and> ''M 0 0 L 10 10 L 0.000000 0.000000'' \<noteq> ''M 0 0 L 10 10 L 0 0''
   \<and> ''M 0.000000 0.000000 L 10.000000 10.000000 L 0.000000 0.000000'' \<noteq> ''M 0 0 L 10 10 L 0 0''"
  by (simp add: to_origin_def line_to_def start_def Path_new_def map_of_assign_same index_present)
    code_simp

text \<open>
  \<^bold>\<open>C3\<close>, as amended. On a path with no \<^verbatim>\<open>d\<close>, \<^verbatim>\<open>line_to\<close> is \<^verbatim>\<open>start\<close>, which records the point
  as the start point; on a path with a \<^verbatim>\<open>d\<close>, \<^verbatim>\<open>to_origin\<close> appends a line command to the
  recorded start point, printed with six decimals; and on a new path \<^verbatim>\<open>start(0, 0)\<close>,
  \<^verbatim>\<open>line_to(10, 10)\<close>, \<^verbatim>\<open>to_origin()\<close> with \<^verbatim>\<open>int\<close> arguments leave
  \<^verbatim>\<open>M 0 0 L 10 10 L 0.000000 0.000000\<close>.
\<close>

theorem line_to_starts_to_origin_returns:
  "(map_of (attr this) ''d'' = None \<longrightarrow>
      line_to x y this = start x y this
      \<and> x_start (line_to x y this) = num_to_float x
      \<and> y_start (line_to x y this) = num_to_float y
      \<and> map_of (attr (line_to x y this)) ''d''
          = Some (''M '' @ std_to_string x @ '' '' @ std_to_string y))
   \<and> (\<forall>d. map_of (attr this) ''d'' = Some d \<longrightarrow>
        map_of (attr (to_origin this)) ''d''
          = Some (d @ '' L '' @ std_to_string (NFloat (x_start this)) @ '' ''
                    @ std_to_string (NFloat (y_start this))))
   \<and> map_of (attr (to_origin (line_to (NInt 10) (NInt 10)
        (start (NInt 0) (NInt 0) (Path_new xs ys))))) ''d''
       = Some ''M 0 0 L 10 10 L 0.000000 0.000000''"
proof -
  have "map_of (attr (to_origin (line_to (NInt 10) (NInt 10)
        (start (NInt 0) (NInt 0) (Path_new xs ys))))) ''d''
       = Some ''M 0 0 L 10 10 L 0.000000 0.000000''"
    by (simp add: to_origin_def line_to_def start_def Path_new_def map_of_assign_same
        index_present) code_simp
  then show ?thesis
    by (simp add: line_to_def to_origin_def start_def index_present map_of_assign_same)
qed

theorem line_to_starts_to_origin_returns_witness:
  "map_of (attr (Path_new NaN NaN)) ''d'' = None
   \<and> line_to (NInt 3) (NInt 4) (Path_new NaN NaN) = start (NInt 3) (NInt 4) (Path_new NaN NaN)
   \<and> map_of (attr (start (NInt 3) (NInt 4) (Path_new NaN NaN))) ''d'' = Some ''M 3 4''
   \<and> map_of (attr (to_origin (start (NInt 3) (NInt 4) (Path_new NaN NaN)))) ''d''
       = Some ''M 3 4 L 3.000000 4.000000''"
proof -
  let ?p = "Path_new NaN NaN"
  have 1: "map_of (attr ?p) ''d'' = None" by (simp add: Path_new_def)
  have 2: "map_of (attr (start (NInt 3) (NInt 4) ?p)) ''d'' = Some ''M 3 4''"
    by (simp add: start_def Path_new_def map_of_assign_same) code_simp
  have 3: "std_to_string (NFloat (x_start (start (NInt 3) (NInt 4) ?p))) = ''3.000000''"
    and 4: "std_to_string (NFloat (y_start (start (NInt 3) (NInt 4) ?p))) = ''4.000000''"
    by (simp_all add: start_def Path_new_def) code_simp+
  have 5: "line_to (NInt 3) (NInt 4) ?p = start (NInt 3) (NInt 4) ?p"
    using line_to_starts_to_origin_returns [of ?p "NInt 3" "NInt 4"] 1 by simp
  have 6: "map_of (attr (to_origin (start (NInt 3) (NInt 4) ?p))) ''d''
       = Some ''M 3 4 L 3.000000 4.000000''"
    using line_to_starts_to_origin_returns [of "start (NInt 3) (NInt 4) ?p"] 2 3 4 by simp
  show ?thesis using 1 2 5 6 by simp
qed

section \<open>Properties of the segment\<close>

lemma Line_reads:
  assumes "map_of (attr this) ''x1'' = Some s1" "stof s1 = Inr a"
          "map_of (attr this) ''x2'' = Some s2" "stof s2 = Inr b"
          "map_of (attr this) ''y1'' = Some s3" "stof s3 = Inr c"
          "map_of (attr this) ''y2'' = Some s4" "stof s4 = Inr d"
  shows "x1 this = (Inr a, this)" "x2 this = (Inr b, this)"
        "y1 this = (Inr c, this)" "y2 this = (Inr d, this)"
  using assms by (simp_all add: x1_def x2_def y1_def y2_def stof_attr_present)

lemma Line_measures:
  assumes "x1 this = (Inr a, this)" "x2 this = (Inr b, this)"
          "y1 this = (Inr c, this)" "y2 this = (Inr d, this)"
  shows "Line_get_width this = (Inr (fabs (fsub binary32 b a)), this)"
    and "Line_get_height this = (Inr (fabs (fsub binary32 d c)), this)"
    and "get_slope this = (Inr (fdiv binary32 (fsub binary32 d c) (fsub binary32 b a)), this)"
    and "get_length this = (Inr (to_float (fsqrt binary64 (fadd binary64
            (pow_2 (fabs (fsub binary32 b a))) (pow_2 (fabs (fsub binary32 d c)))))), this)"
  using assms
  by (simp_all add: Line_get_width_def Line_get_height_def get_slope_def get_length_def
      seq_def return_def)

lemma outside_eq:
  assumes "x1 this = (Inr a, this)" "x2 this = (Inr b, this)"
  shows "outside x_a this =
    (Inr (fgreater x_a a \<and> fgreater x_a b \<or> fless x_a a \<and> fless x_a b), this)"
  using assms by (simp add: outside_def seq_def return_def)

lemma along_vertical:
  assumes "x1 this = (Inr a, this)" "x2 this = (Inr b, this)"
          "y1 this = (Inr c, this)" "y2 this = (Inr d, this)"
          "get_length this = (Inr l, this)" "feq a b"
  shows "along percent this =
    (Inr (a, if fgreater c d then fsub binary32 c (fmul binary32 percent l)
             else fadd binary32 c (fmul binary32 percent l)), this)"
  using assms by (simp add: along_def seq_def return_def fne_def)

lemma along_sloped:
  assumes "x1 this = (Inr a, this)" "x2 this = (Inr b, this)"
          "y1 this = (Inr c, this)" "y2 this = (Inr d, this)"
          "get_length this = (Inr l, this)" "get_slope this = (Inr s, this)" "fne a b"
  shows "along percent this =
    (let length = fmul binary32 percent l;
         discrim = to_float (fsqrt binary64 (fmul binary64
            (fmul binary64 (Finite False 4) (pow_2 length))
            (fdiv binary64 (Finite False 1) (fadd binary64 (Finite False 1) (pow_2 s)))));
         x_a = fdiv binary32 (fadd binary32 (fmul binary32 (Finite False 2) a) discrim)
                 (Finite False 2);
         x_b = fdiv binary32 (fsub binary32 (fmul binary32 (Finite False 2) a) discrim)
                 (Finite False 2);
         x_pos = (if fgreater x_a a \<and> fgreater x_a b \<or> fless x_a a \<and> fless x_a b
                  then x_b else x_a)
     in (Inr (x_pos, fadd binary32 (fmul binary32 s (fsub binary32 x_pos a)) c), this))"
  using assms by (simp add: along_def seq_def return_def outside_eq Let_def)

text \<open>
  \<^bold>\<open>C9.\<close> The claim is that no read accessor of a segment changes the node, also when an
  endpoint attribute is absent. \<^verbatim>\<open>x1()\<close> reads \<^verbatim>\<open>this->attr["x1"]\<close>, and the subscript
  operator of the map inserts the key that is absent: on a \<^verbatim>\<open>Line()\<close> with no attributes
  \<^verbatim>\<open>x1()\<close> throws \<^verbatim>\<open>invalid_argument\<close> and leaves the attribute \<^verbatim>\<open>x1\<close> in the map, with
  the empty text as its value. \<^verbatim>\<open>Element::get_width\<close> looks the key up with \<^verbatim>\<open>find\<close>
  before it reads.
\<close>

theorem x1_inserts_missing_attribute:
  "x1 (Element_new []) = (Inl invalid_argument, (Element_new [])\<lparr>attr := [(''x1'', [])]\<rparr>)
   \<and> map_of (attr (Element_new [])) ''x1'' = None
   \<and> map_of (attr (snd (x1 (Element_new [])))) ''x1'' = Some []
   \<and> node_get_width (Line (Element_new []))
       = (Inl invalid_argument, Line ((Element_new [])\<lparr>attr := [(''x2'', [])]\<rparr>))"
  by code_simp

text \<open>
  \<^bold>\<open>C5.\<close> On a segment whose four endpoint attributes are numbers, with \<^verbatim>\<open>x1 == x2\<close>,
  \<^verbatim>\<open>along(percent)\<close> returns \<^verbatim>\<open>x1\<close> and, with \<open>l\<close> the length that \<^verbatim>\<open>get_length\<close> returns,
  \<^verbatim>\<open>y1 - percent * l\<close> when \<^verbatim>\<open>y1 > y2\<close> and \<^verbatim>\<open>y1 + percent * l\<close> otherwise, in \<^verbatim>\<open>float\<close>
  arithmetic; the node is as it was. \<^verbatim>\<open>along(0.25)\<close> is (3, 7.5) on the segment from
  (3, 10) to (3, 0) and (3, 2.5) on the segment from (3, 0) to (3, 10).
\<close>

theorem along_vertical_segment:
  "(map_of (attr this) ''x1'' = Some s1 \<and> stof s1 = Inr a
      \<and> map_of (attr this) ''x2'' = Some s2 \<and> stof s2 = Inr b
      \<and> map_of (attr this) ''y1'' = Some s3 \<and> stof s3 = Inr c
      \<and> map_of (attr this) ''y2'' = Some s4 \<and> stof s4 = Inr d
      \<and> feq a b \<longrightarrow>
    (let l = to_float (fsqrt binary64 (fadd binary64
               (pow_2 (fabs (fsub binary32 b a))) (pow_2 (fabs (fsub binary32 d c)))))
     in get_length this = (Inr l, this)
        \<and> along percent this =
            (Inr (a, if fgreater c d then fsub binary32 c (fmul binary32 percent l)
                     else fadd binary32 c (fmul binary32 percent l)), this)))
   \<and> fst (along (Finite False (1 / 4))
            (Line_new (Finite False 3) (Finite False 3) (Finite False 10) (Finite False 0)))
       = Inr (Finite False 3, Finite False (15 / 2))
   \<and> fst (along (Finite False (1 / 4))
            (Line_new (Finite False 3) (Finite False 3) (Finite False 0) (Finite False 10)))
       = Inr (Finite False 3, Finite False (5 / 2))"
proof -
  have "fst (along (Finite False (1 / 4))
            (Line_new (Finite False 3) (Finite False 3) (Finite False 10) (Finite False 0)))
       = Inr (Finite False 3, Finite False (15 / 2))"
    by code_simp
  moreover have "fst (along (Finite False (1 / 4))
            (Line_new (Finite False 3) (Finite False 3) (Finite False 0) (Finite False 10)))
       = Inr (Finite False 3, Finite False (5 / 2))"
    by code_simp
  moreover have "get_length this = (Inr l, this) \<and> along percent this =
            (Inr (a, if fgreater c d then fsub binary32 c (fmul binary32 percent l)
                     else fadd binary32 c (fmul binary32 percent l)), this)"
    if "map_of (attr this) ''x1'' = Some s1" "stof s1 = Inr a"
       "map_of (attr this) ''x2'' = Some s2" "stof s2 = Inr b"
       "map_of (attr this) ''y1'' = Some s3" "stof s3 = Inr c"
       "map_of (attr this) ''y2'' = Some s4" "stof s4 = Inr d" "feq a b"
       "l = to_float (fsqrt binary64 (fadd binary64
               (pow_2 (fabs (fsub binary32 b a))) (pow_2 (fabs (fsub binary32 d c)))))"
    for l
  proof -
    note r = Line_reads [OF that(1-8)]
    have l: "get_length this = (Inr l, this)"
      using Line_measures(4) [OF r] that(10) by simp
    show ?thesis
      using l along_vertical [OF r l that(9)] by simp
  qed
  ultimately show ?thesis by (simp add: Let_def)
qed

theorem along_vertical_segment_witness:
  "map_of (attr (Line_new (Finite False 3) (Finite False 3) (Finite False 10) (Finite False 0))) ''x1''
     = Some ''3.000000'' \<and> stof ''3.000000'' = Inr (Finite False 3)
   \<and> map_of (attr (Line_new (Finite False 3) (Finite False 3) (Finite False 10) (Finite False 0))) ''x2''
     = Some ''3.000000''
   \<and> map_of (attr (Line_new (Finite False 3) (Finite False 3) (Finite False 10) (Finite False 0))) ''y1''
     = Some ''10.000000'' \<and> stof ''10.000000'' = Inr (Finite False 10)
   \<and> map_of (attr (Line_new (Finite False 3) (Finite False 3) (Finite False 10) (Finite False 0))) ''y2''
     = Some ''0.000000'' \<and> stof ''0.000000'' = Inr (Finite False 0)
   \<and> feq (Finite False 3) (Finite False 3)
   \<and> along (Finite False (1 / 4))
        (Line_new (Finite False 3) (Finite False 3) (Finite False 10) (Finite False 0))
       = (Inr (Finite False 3, Finite False (15 / 2)),
          Line_new (Finite False 3) (Finite False 3) (Finite False 10) (Finite False 0))"
proof -
  let ?L = "Line_new (Finite False 3) (Finite False 3) (Finite False 10) (Finite False 0)"
  have m: "map_of (attr ?L) ''x1'' = Some ''3.000000''" "map_of (attr ?L) ''x2'' = Some ''3.000000''"
      "map_of (attr ?L) ''y1'' = Some ''10.000000''" "map_of (attr ?L) ''y2'' = Some ''0.000000''"
    by code_simp+
  have p: "stof ''3.000000'' = Inr (Finite False 3)" "stof ''10.000000'' = Inr (Finite False 10)"
      "stof ''0.000000'' = Inr (Finite False 0)"
    by code_simp+
  have e: "feq (Finite False 3) (Finite False 3)" by (simp add: fval_def)
  have "snd (along (Finite False (1 / 4)) ?L) = ?L"
    using along_vertical_segment [of ?L "''3.000000''" "Finite False 3" "''3.000000''"
        "Finite False 3" "''10.000000''" "Finite False 10" "''0.000000''" "Finite False 0"
        "Finite False (1 / 4)"] m p e
    by (simp add: Let_def)
  moreover have "fst (along (Finite False (1 / 4)) ?L) = Inr (Finite False 3, Finite False (15 / 2))"
    by code_simp
  ultimately have "along (Finite False (1 / 4)) ?L = (Inr (Finite False 3, Finite False (15 / 2)), ?L)"
    by (simp add: prod_eq_iff)
  then show ?thesis using m p e by simp
qed

text \<open>
  \<^bold>\<open>C4.\<close> The claim is that, when \<^verbatim>\<open>x1 != x2\<close>, \<^verbatim>\<open>along\<close> returns for every fraction the
  point of the line at the distance \<open>fraction * length\<close> from (\<^verbatim>\<open>x1\<close>, \<^verbatim>\<open>y1\<close>), on the side of
  \<^verbatim>\<open>x1\<close> on which \<^verbatim>\<open>x2\<close> is. The code gives up the first root when it is strictly greater
  than both \<^verbatim>\<open>x1\<close> and \<^verbatim>\<open>x2\<close>, or strictly less than both, and the first root is never to the
  left of \<^verbatim>\<open>x1\<close>: when \<^verbatim>\<open>x1 < x2\<close> and the first root is beyond \<^verbatim>\<open>x2\<close>, the point returned
  is the one on the other side of \<^verbatim>\<open>x1\<close>.
  \<^item> On the segment from (0, 0) to (10, 0), \<^verbatim>\<open>along(1.5)\<close> is (-15, 0).
  \<^item> On the segment from (0, 0) to (3, 7), \<^verbatim>\<open>along(1.0)\<close> is (-3.0000002, -7.0000005) and
    not the end point: the first root is above 3 by the rounding.
  \<^item> On the segment from (0, 0) to (10, 0), \<^verbatim>\<open>along(-0.5)\<close> is (5, 0), the point of
    \<^verbatim>\<open>along(0.5)\<close>.

  The other paths of \<^verbatim>\<open>along\<close> go on beyond the ends: on the segment from (10, 0) to
  (0, 0), \<^verbatim>\<open>along(1.5)\<close> is (-5, 0), and on the vertical segment from (3, 0) to (3, 10),
  \<^verbatim>\<open>along(1.5)\<close> is (3, 15) and \<^verbatim>\<open>along(-0.5)\<close> is (3, -5).
  What the claim says of the segment from (0, 0) to (10, 0) holds: its length is 10, its
  width 10, its height 0, and \<^verbatim>\<open>along(0.5)\<close> is (5, 0).
\<close>

theorem along_beyond_the_end:
  "fst (x1 (Line_new (Finite False 0) (Finite False 10) (Finite False 0) (Finite False 0)))
     = Inr (Finite False 0)
   \<and> fst (x2 (Line_new (Finite False 0) (Finite False 10) (Finite False 0) (Finite False 0)))
     = Inr (Finite False 10)
   \<and> fst (along (Finite False (3 / 2))
        (Line_new (Finite False 0) (Finite False 10) (Finite False 0) (Finite False 0)))
     = Inr (Finite True 15, Finite False 0)
   \<and> fless (Finite False 0) (Finite False 10)
   \<and> fless (Finite True 15) (Finite False 0)
   \<and> fst (along (Finite False 1)
        (Line_new (Finite False 0) (Finite False 3) (Finite False 0) (Finite False 7)))
     = Inr (Finite True (12582913 / 4194304), Finite True (14680065 / 2097152))
   \<and> fst (along (Finite True (1 / 2))
        (Line_new (Finite False 0) (Finite False 10) (Finite False 0) (Finite False 0)))
     = Inr (Finite False 5, Finite False 0)
   \<and> fst (along (Finite False (3 / 2))
        (Line_new (Finite False 10) (Finite False 0) (Finite False 0) (Finite False 0)))
     = Inr (Finite True 5, Finite False 0)
   \<and> fst (along (Finite False (3 / 2))
        (Line_new (Finite False 3) (Finite False 3) (Finite False 0) (Finite False 10)))
     = Inr (Finite False 3, Finite False 15)
   \<and> fst (along (Finite True (1 / 2))
        (Line_new (Finite False 3) (Finite False 3) (Finite False 0) (Finite False 10)))
     = Inr (Finite False 3, Finite True 5)
   \<and> fst (get_length (Line_new (Finite False 0) (Finite False 10) (Finite False 0) (Finite False 0)))
       = Inr (Finite False 10)
   \<and> fst (Line_get_width (Line_new (Finite False 0) (Finite False 10) (Finite False 0) (Finite False 0)))
       = Inr (Finite False 10)
   \<and> fst (Line_get_height (Line_new (Finite False 0) (Finite False 10) (Finite False 0) (Finite False 0)))
       = Inr (Finite False 0)
   \<and> fst (along (Finite False (1 / 2))
            (Line_new (Finite False 0) (Finite False 10) (Finite False 0) (Finite False 0)))
       = Inr (Finite False 5, Finite False 0)"
  by code_simp

section \<open>Properties of the tree\<close>

subsection \<open>Serialization leaves the store as it is\<close>

lemma to_string_attrib_eq: "to_string_attrib ret m = (ret @ attrib_text m, m)"
  by (induction m arbitrary: ret) (auto simp: attrib_text_def)

lemma Text_to_string_eq:
  "Text_to_string h this i =
     Some (replicate i (CHR 0x09) @ ''<text'' @ attrib_text (attr (base (h ! this)))
             @ ''>'' @ content (base (h ! this)) @ ''</text>'', h)"
  by (simp add: Text_to_string_def to_string_attrib_eq rebase_base Let_def)

lemma Element_to_string_eq:
  "Element_to_string f h this i =
     (let n = h ! this; indent = replicate i (CHR 0x09);
          ret = indent @ ''<'' @ tag n @ attrib_text (attr (base n))
      in if children (base n) \<noteq> [] then
           (case for_children f (ret @ [CHR 0x3E, CHR 0x0A]) h (children (base n)) of
              None \<Rightarrow> None
            | Some (ret', h2) \<Rightarrow> Some (ret' @ indent @ ''</'' @ tag n @ ''>'', h2))
         else Some (ret @ '' />'', h))"
  by (simp add: Element_to_string_def to_string_attrib_eq rebase_base Let_def)

lemma for_children_blocks:
  assumes "\<And>c s h'. c \<in> set cs \<Longrightarrow> f h c = Some (s, h') \<Longrightarrow> h' = h"
      and "for_children f ret h cs = Some (r, h')"
  shows "h' = h \<and> (\<exists>bs. length bs = length cs \<and> (\<forall>k<length cs. f h (cs ! k) = Some (bs ! k, h))
            \<and> r = ret @ concat (map (\<lambda>b. b @ [CHR 0x0A]) bs))"
  using assms
proof (induction cs arbitrary: ret)
  case Nil
  then show ?case by simp
next
  case (Cons c cs)
  from Cons.prems(2) obtain s h1 where c: "f h c = Some (s, h1)"
    and rest: "for_children f (ret @ (s @ [CHR 0x0A])) h1 cs = Some (r, h')"
    by (auto split: option.splits)
  have h1: "h1 = h" using Cons.prems(1)[of c s h1] c by simp
  have "h' = h \<and> (\<exists>bs. length bs = length cs \<and> (\<forall>k<length cs. f h (cs ! k) = Some (bs ! k, h))
            \<and> r = (ret @ (s @ [CHR 0x0A])) @ concat (map (\<lambda>b. b @ [CHR 0x0A]) bs))"
  proof (rule Cons.IH)
    show "\<And>c s h'. c \<in> set cs \<Longrightarrow> f h c = Some (s, h') \<Longrightarrow> h' = h"
      using Cons.prems(1) by auto
    show "for_children f (ret @ (s @ [CHR 0x0A])) h cs = Some (r, h')"
      using rest h1 by simp
  qed
  then obtain bs where bs: "h' = h" "length bs = length cs"
      "\<forall>k<length cs. f h (cs ! k) = Some (bs ! k, h)"
      "r = (ret @ (s @ [CHR 0x0A])) @ concat (map (\<lambda>b. b @ [CHR 0x0A]) bs)"
    by blast
  have "\<forall>k<length (c # cs). f h ((c # cs) ! k) = Some ((s # bs) ! k, h)"
    using bs(3) c h1 by (auto simp: nth_Cons split: nat.splits)
  moreover have "length (s # bs) = length (c # cs)" using bs(2) by simp
  moreover have "r = ret @ concat (map (\<lambda>b. b @ [CHR 0x0A]) (s # bs))" using bs(4) by simp
  ultimately show ?case using bs(1) by blast
qed

lemma for_children_from_blocks:
  "length bs = length cs \<Longrightarrow> (\<forall>k<length cs. f h (cs ! k) = Some (bs ! k, h)) \<Longrightarrow>
   for_children f ret h cs = Some (ret @ concat (map (\<lambda>b. b @ [CHR 0x0A]) bs), h)"
proof (induction cs arbitrary: bs ret)
  case Nil
  then show ?case by simp
next
  case (Cons c cs)
  then obtain b bs' where bs: "bs = b # bs'" by (cases bs) auto
  have c: "f h c = Some (b, h)" using Cons.prems(2) bs by auto
  have "\<forall>k<length cs. f h (cs ! k) = Some (bs' ! k, h)"
    using Cons.prems(2) bs by auto
  then have "for_children f (ret @ (b @ [CHR 0x0A])) h cs
             = Some ((ret @ (b @ [CHR 0x0A])) @ concat (map (\<lambda>b. b @ [CHR 0x0A]) bs'), h)"
    using Cons.IH[of bs'] Cons.prems(1) bs by simp
  then show ?case using c bs by simp
qed

lemma to_string_store: "to_string fuel h this i = Some (s, h') \<Longrightarrow> h' = h"
proof (induction fuel arbitrary: h this i s h')
  case 0
  then show ?case by simp
next
  case (Suc fuel)
  show ?case
  proof (cases "is_Text (h ! this)")
    case True
    with Suc.prems show ?thesis
      by (auto simp: Text_to_string_eq split: if_splits)
  next
    case False
    let ?f = "\<lambda>h' it. to_string fuel h' it (Suc i)"
    have E: "Element_to_string ?f h this i = Some (s, h')"
      using Suc.prems False by (auto split: if_splits)
    show ?thesis
    proof (cases "children (base (h ! this)) = []")
      case True
      with E show ?thesis by (simp add: Element_to_string_eq Let_def)
    next
      case False
      with E obtain r where r: "for_children ?f
          (replicate i (CHR 0x09) @ ''<'' @ tag (h ! this) @ attrib_text (attr (base (h ! this)))
            @ [CHR 0x3E, CHR 0x0A]) h (children (base (h ! this))) = Some (r, h')"
        by (auto simp: Element_to_string_eq Let_def split: option.splits)
      show ?thesis
        using for_children_blocks[OF _ r] Suc.IH by blast
    qed
  qed
qed

subsection \<open>More fuel changes nothing\<close>

lemma for_children_mono:
  assumes "\<And>h c r. f h c = Some r \<Longrightarrow> g h c = Some r"
      and "for_children f ret h cs = Some r"
  shows "for_children g ret h cs = Some r"
  using assms(2)
proof (induction cs arbitrary: ret h)
  case Nil
  then show ?case by simp
next
  case (Cons c cs)
  then show ?case
    by (auto split: option.splits dest: assms(1))
qed

lemma Element_to_string_mono:
  assumes "\<And>h c r. f h c = Some r \<Longrightarrow> g h c = Some r"
      and "Element_to_string f h this i = Some r"
  shows "Element_to_string g h this i = Some r"
  using assms(2) for_children_mono[of f g, OF assms(1)]
  by (auto simp: Element_to_string_eq Let_def split: if_splits option.splits)

lemma to_string_Suc: "to_string fuel h this i = Some r \<Longrightarrow> to_string (Suc fuel) h this i = Some r"
proof (induction fuel arbitrary: h this i r)
  case 0
  then show ?case by simp
next
  case (Suc fuel)
  have step: "to_string (Suc (Suc fuel)) h this i =
     (if length h \<le> this then None
      else if is_Text (h ! this) then Text_to_string h this i
      else Element_to_string (\<lambda>h' it. to_string (Suc fuel) h' it (Suc i)) h this i)"
    by (rule to_string.simps(2))
  have prem: "(if length h \<le> this then None
      else if is_Text (h ! this) then Text_to_string h this i
      else Element_to_string (\<lambda>h' it. to_string fuel h' it (Suc i)) h this i) = Some r"
    using Suc.prems by (simp only: to_string.simps(2))
  have mono: "Element_to_string (\<lambda>h' it. to_string fuel h' it (Suc i)) h this i = Some r
    \<Longrightarrow> Element_to_string (\<lambda>h' it. to_string (Suc fuel) h' it (Suc i)) h this i = Some r"
    by (rule Element_to_string_mono[rotated], assumption) (rule Suc.IH)
  show ?case
    unfolding step using prem mono by (simp split: if_splits)
qed

lemma to_string_mono:
  "to_string fuel h this i = Some r \<Longrightarrow> fuel \<le> fuel' \<Longrightarrow> to_string fuel' h this i = Some r"
proof (induction fuel')
  case 0
  then show ?case by simp
next
  case (Suc n)
  show ?case
  proof (cases "fuel \<le> n")
    case True
    then show ?thesis using Suc.IH Suc.prems(1) to_string_Suc by blast
  next
    case False
    then have "fuel = Suc n" using Suc.prems(2) by simp
    then show ?thesis using Suc.prems(1) by simp
  qed
qed

lemma to_string_deterministic:
  assumes "to_string f1 h this i = Some r1" "to_string f2 h this i = Some r2"
  shows "r1 = r2"
  using to_string_mono[OF assms(1), of "max f1 f2"] to_string_mono[OF assms(2), of "max f1 f2"]
  by simp

subsection \<open>A finite tree is serialized\<close>

lemma for_children_total:
  assumes "\<And>c. c \<in> set cs \<Longrightarrow> \<exists>s. f h c = Some (s, h)"
  shows "\<exists>r. for_children f ret h cs = Some (r, h)"
  using assms
proof (induction cs arbitrary: ret)
  case Nil
  then show ?case by simp
next
  case (Cons c cs)
  then obtain s where "f h c = Some (s, h)" by auto
  moreover have "\<exists>r. for_children f (ret @ (s @ [CHR 0x0A])) h cs = Some (r, h)"
    using Cons by simp
  ultimately show ?case by auto
qed

lemma common_fuel:
  assumes "\<And>c. c \<in> set cs \<Longrightarrow> \<exists>fuel s. to_string fuel h c i = Some (s, h)"
  shows "\<exists>fuel. \<forall>c\<in>set cs. \<exists>s. to_string fuel h c i = Some (s, h)"
  using assms
proof (induction cs)
  case Nil
  then show ?case by simp
next
  case (Cons c cs)
  have "\<exists>fuel s. to_string fuel h c i = Some (s, h)" using Cons.prems by simp
  then obtain f1 s1 where 1: "to_string f1 h c i = Some (s1, h)" by blast
  have "\<exists>fuel. \<forall>c\<in>set cs. \<exists>s. to_string fuel h c i = Some (s, h)"
    using Cons.IH Cons.prems by simp
  then obtain f2 where 2: "\<forall>c\<in>set cs. \<exists>s. to_string f2 h c i = Some (s, h)" by blast
  have "to_string (max f1 f2) h c i = Some (s1, h)"
    using to_string_mono[OF 1, of "max f1 f2"] by simp
  moreover have "\<forall>c'\<in>set cs. \<exists>s. to_string (max f1 f2) h c' i = Some (s, h)"
  proof
    fix c' assume "c' \<in> set cs"
    then obtain s where "to_string f2 h c' i = Some (s, h)" using 2 by blast
    then have "to_string (max f1 f2) h c' i = Some (s, h)"
      using to_string_mono[of f2 h c' i "(s, h)" "max f1 f2"] by simp
    then show "\<exists>s. to_string (max f1 f2) h c' i = Some (s, h)" by blast
  qed
  ultimately have "\<forall>c'\<in>set (c # cs). \<exists>s. to_string (max f1 f2) h c' i = Some (s, h)"
    by simp
  then show ?case by blast
qed

lemma tree_to_string: "tree h this \<Longrightarrow> \<exists>fuel s. to_string fuel h this i = Some (s, h)"
proof (induction arbitrary: i rule: tree.induct)
  case (node this)
  obtain fuel where fuel:
    "\<forall>c\<in>set (children (base (h ! this))). \<exists>s. to_string fuel h c (Suc i) = Some (s, h)"
    using common_fuel[of "children (base (h ! this))" h "Suc i"] node.IH by blast
  show ?case
  proof (cases "is_Text (h ! this)")
    case True
    then have "to_string (Suc 0) h this i = Text_to_string h this i"
      using node.hyps(1) by simp
    then show ?thesis by (metis Text_to_string_eq)
  next
    case False
    obtain r where "for_children (\<lambda>h' it. to_string fuel h' it (Suc i))
        (replicate i (CHR 0x09) @ ''<'' @ tag (h ! this) @ attrib_text (attr (base (h ! this)))
            @ [CHR 0x3E, CHR 0x0A]) h (children (base (h ! this))) = Some (r, h)"
      using for_children_total[of "children (base (h ! this))"
          "\<lambda>h' it. to_string fuel h' it (Suc i)" h] fuel
      by blast
    then have "\<exists>s. to_string (Suc fuel) h this i = Some (s, h)"
      using False node.hyps(1) by (simp add: Element_to_string_eq Let_def)
    then show ?thesis by blast
  qed
qed

subsection \<open>Adding children\<close>

lemma add_child_eq:
  "this < length h \<Longrightarrow>
   add_child n this h = (length h, (h @ [n])[this := push_back (length h) (h ! this)])"
  by (simp add: add_child_def Let_def nth_append)

lemma add_children_foldl:
  "add_children args this h = foldl (\<lambda>h n. snd (add_child n this h)) h args"
  by (induction args this h rule: add_children.induct) simp_all

lemma foldl_add_child:
  "this < length h \<Longrightarrow>
   foldl (\<lambda>h n. snd (add_child n this h)) h args =
     (h @ args)[this := rebase ((base (h ! this))
        \<lparr>children := children (base (h ! this)) @ [length h ..< length h + length args]\<rparr>) (h ! this)]"
proof (induction args arbitrary: h)
  case Nil
  then show ?case by (simp add: rebase_base)
next
  case (Cons n ns)
  let ?h1 = "(h @ [n])[this := push_back (length h) (h ! this)]"
  have len: "this < length ?h1" using Cons.prems by simp
  have at: "?h1 ! this = push_back (length h) (h ! this)" using Cons.prems by simp
  have upt: "[length h] @ [Suc (length h) ..< Suc (length h) + length ns]
             = [length h ..< length h + length (n # ns)]"
    using upt_conv_Cons[of "length h" "length h + Suc (length ns)"] by (simp del: upt_Suc)
  have "foldl (\<lambda>h n. snd (add_child n this h)) h (n # ns)
        = foldl (\<lambda>h n. snd (add_child n this h)) ?h1 ns"
    using Cons.prems by (simp add: add_child_eq)
  also have "\<dots> = (?h1 @ ns)[this := rebase ((base (?h1 ! this))
        \<lparr>children := children (base (?h1 ! this)) @ [length ?h1 ..< length ?h1 + length ns]\<rparr>)
          (?h1 ! this)]"
    by (rule Cons.IH[OF len])
  also have "\<dots> = (h @ n # ns)[this := rebase ((base (h ! this))
        \<lparr>children := children (base (h ! this)) @ [length h ..< length h + length (n # ns)]\<rparr>)
          (h ! this)]"
    unfolding at using Cons.prems upt
    by (simp add: push_back_def base_rebase rebase_rebase list_update_append1 del: upt_Suc)
  finally show ?case .
qed

subsection \<open>What a serialization reads\<close>

lemma reach_closed:
  assumes "this \<in> S" "\<And>a c. a \<in> S \<Longrightarrow> a < length h \<Longrightarrow> c \<in> set (children (base (h ! a))) \<Longrightarrow> c \<in> S"
  shows "reach h this \<subseteq> S"
proof
  fix x assume "x \<in> reach h this"
  then show "x \<in> S"
    by (induction rule: reach.induct) (auto intro: assms)
qed

lemma reach_trans: "c \<in> reach h this \<Longrightarrow> reach h c \<subseteq> reach h this"
  by (rule reach_closed) (auto intro: reach.child)

lemma reach_child_subset:
  "this < length h \<Longrightarrow> c \<in> set (children (base (h ! this))) \<Longrightarrow> reach h c \<subseteq> reach h this"
  by (rule reach_trans) (auto intro: reach.intros)

lemma to_string_frame:
  assumes "to_string fuel h this i = Some (s, h)"
      and "\<And>x. x \<in> reach h this \<Longrightarrow> x < length h \<Longrightarrow> x < length h2 \<and> h2 ! x = h ! x"
  shows "to_string fuel h2 this i = Some (s, h2)"
  using assms
proof (induction fuel arbitrary: this i s)
  case 0
  then show ?case by simp
next
  case (Suc fuel)
  have lt: "this < length h" using Suc.prems(1) by (auto split: if_splits)
  have same: "this < length h2" "h2 ! this = h ! this"
    using Suc.prems(2)[of this] lt by (auto intro: reach.root)
  show ?case
  proof (cases "is_Text (h ! this)")
    case True
    with Suc.prems(1) lt same show ?thesis
      by (simp add: Text_to_string_eq)
  next
    case False
    let ?f = "\<lambda>h' it. to_string fuel h' it (Suc i)"
    let ?cs = "children (base (h ! this))"
    let ?open = "replicate i (CHR 0x09) @ ''<'' @ tag (h ! this) @ attrib_text (attr (base (h ! this)))"
    have E: "Element_to_string ?f h this i = Some (s, h)"
      using Suc.prems(1) False lt by simp
    show ?thesis
    proof (cases "?cs = []")
      case True
      with E False lt same show ?thesis
        by (simp add: Element_to_string_eq Let_def)
    next
      case ne: False
      from E ne obtain r where r: "for_children ?f (?open @ [CHR 0x3E, CHR 0x0A]) h ?cs = Some (r, h)"
        and s: "s = r @ replicate i (CHR 0x09) @ ''</'' @ tag (h ! this) @ ''>''"
        by (auto simp: Element_to_string_eq Let_def split: option.splits)
      have "h = h \<and> (\<exists>bs. length bs = length ?cs \<and> (\<forall>k<length ?cs. ?f h (?cs ! k) = Some (bs ! k, h))
            \<and> r = (?open @ [CHR 0x3E, CHR 0x0A]) @ concat (map (\<lambda>b. b @ [CHR 0x0A]) bs))"
        by (rule for_children_blocks[OF _ r]) (rule to_string_store)
      then obtain bs where bs: "length bs = length ?cs"
          "\<forall>k<length ?cs. to_string fuel h (?cs ! k) (Suc i) = Some (bs ! k, h)"
          "r = (?open @ [CHR 0x3E, CHR 0x0A]) @ concat (map (\<lambda>b. b @ [CHR 0x0A]) bs)"
        by blast
      have "\<forall>k<length ?cs. to_string fuel h2 (?cs ! k) (Suc i) = Some (bs ! k, h2)"
      proof (intro allI impI)
        fix k assume k: "k < length ?cs"
        then have sub: "reach h (?cs ! k) \<subseteq> reach h this"
          using reach_child_subset[OF lt] by simp
        show "to_string fuel h2 (?cs ! k) (Suc i) = Some (bs ! k, h2)"
          using bs(2) k sub Suc.prems(2) by (intro Suc.IH) auto
      qed
      then have "for_children ?f (?open @ [CHR 0x3E, CHR 0x0A]) h2 ?cs = Some (r, h2)"
        using for_children_from_blocks[of bs ?cs ?f h2] bs(1,3) by simp
      then show ?thesis
        using False ne same s by (simp add: Element_to_string_eq Let_def)
    qed
  qed
qed

lemma reach_add_child:
  assumes "this < length h"
  shows "reach ((h @ [n])[this := push_back (length h) (h ! this)]) this
         \<subseteq> reach h this \<union> {length h} \<union> (\<Union>c\<in>set (children (base n)). reach h c)"
proof (rule reach_closed)
  let ?h1 = "(h @ [n])[this := push_back (length h) (h ! this)]"
  let ?S = "reach h this \<union> {length h} \<union> (\<Union>c\<in>set (children (base n)). reach h c)"
  show "this \<in> ?S" by (simp add: reach.root)
  fix a c assume a: "a \<in> ?S" "a < length ?h1" and c: "c \<in> set (children (base (?h1 ! a)))"
  have step: "\<And>r. a \<in> reach h r \<Longrightarrow> a < length h \<Longrightarrow> c \<in> set (children (base (h ! a))) \<Longrightarrow> c \<in> reach h r"
    by (rule reach.child)
  consider "a = this" | "a = length h" | "a \<noteq> this" "a < length h"
    using a(2) by force
  then show "c \<in> ?S"
  proof cases
    case 1
    then have "c = length h \<or> c \<in> set (children (base (h ! this)))"
      using c assms by (auto simp: push_back_def base_rebase)
    then show ?thesis
    proof
      assume "c = length h" then show ?thesis by simp
    next
      assume "c \<in> set (children (base (h ! this)))"
      then show ?thesis using a(1) 1 assms step by auto
    qed
  next
    case 2
    then have "c \<in> set (children (base n))" using c assms by (simp add: nth_append)
    then show ?thesis by (auto intro: reach.root)
  next
    case 3
    then have "c \<in> set (children (base (h ! a)))" using c by (simp add: nth_append)
    then show ?thesis using a(1) 3 step by auto
  qed
qed

text \<open>
  \<^bold>\<open>C1.\<close> When \<open>this\<close> is the root of a finite tree, \<^verbatim>\<open>to_string\<close> returns a text and
  leaves every object of the store as it was, attribute values included; and whenever a
  first call returns \<open>s1\<close> and a second call, on the store that the first one left,
  returns \<open>s2\<close>, the two texts are that same text and the store is still the one before
  the first call.
\<close>

theorem to_string_twice:
  assumes "tree h this"
  shows "\<exists>fuel s. to_string fuel h this i = Some (s, h)
           \<and> (\<forall>fuel1 fuel2 s1 h1 s2 h2.
                 to_string fuel1 h this i = Some (s1, h1)
                 \<and> to_string fuel2 h1 this i = Some (s2, h2)
               \<longrightarrow> s1 = s \<and> h1 = h \<and> s2 = s \<and> h2 = h)"
proof -
  obtain fuel s where 1: "to_string fuel h this i = Some (s, h)"
    using tree_to_string[OF assms] by blast
  have "s1 = s \<and> h1 = h \<and> s2 = s \<and> h2 = h"
    if "to_string fuel1 h this i = Some (s1, h1)" "to_string fuel2 h1 this i = Some (s2, h2)"
    for fuel1 fuel2 s1 h1 s2 h2
  proof -
    have a: "(s1, h1) = (s, h)" using to_string_deterministic[OF that(1) 1] .
    then have "to_string fuel2 h this i = Some (s2, h2)" using that(2) by simp
    then have "(s2, h2) = (s, h)" using to_string_deterministic[OF _ 1] by blast
    with a show ?thesis by simp
  qed
  with 1 show ?thesis by blast
qed

lemma length_drawn: "length drawn = 7"
  by code_simp

lemma children_drawn:
  "children (base (drawn ! 0)) = [4, 5, 6]" "children (base (drawn ! 4)) = []"
  "children (base (drawn ! 5)) = []" "children (base (drawn ! 6)) = []"
  by code_simp+

lemma leaf_tree: "this < length h \<Longrightarrow> children (base (h ! this)) = [] \<Longrightarrow> tree h this"
  by (rule tree.node) simp_all

lemma tree_drawn: "tree drawn 0"
proof (rule tree.node)
  show "0 < length drawn" by (simp add: length_drawn)
  fix c assume "c \<in> set (children (base (drawn ! 0)))"
  then have "c = 4 \<or> c = 5 \<or> c = 6" by (simp add: children_drawn)
  then show "tree drawn c"
    using leaf_tree[of 4 drawn] leaf_tree[of 5 drawn] leaf_tree[of 6 drawn]
    by (auto simp: length_drawn children_drawn)
qed

theorem to_string_twice_witness:
  "tree drawn 0
   \<and> (\<exists>fuel s. to_string fuel drawn 0 0 = Some (s, drawn)
         \<and> (\<forall>fuel1 fuel2 s1 h1 s2 h2.
               to_string fuel1 drawn 0 0 = Some (s1, h1)
               \<and> to_string fuel2 h1 0 0 = Some (s2, h2)
             \<longrightarrow> s1 = s \<and> h1 = drawn \<and> s2 = s \<and> h2 = drawn))"
  using to_string_twice [OF tree_drawn, of 0] tree_drawn by blast

text \<open>
  The text of a node with children, when the call returns: the blocks of the children are
  in the order of the children.
\<close>

lemma serialized_children_in_order:
  assumes "this < length h" "\<not> is_Text (h ! this)" "args \<noteq> []"
      and "to_string (Suc fuel) (add_children args this h) this i = Some (s, h')"
  shows "add_children args this h = foldl (\<lambda>h n. snd (add_child n this h)) h args
    \<and> children (base (add_children args this h ! this))
        = children (base (h ! this)) @ [length h ..< length h + length args]
    \<and> (\<forall>k<length args. add_children args this h ! (length h + k) = args ! k)
    \<and> (\<exists>blocks. length blocks = length (children (base (h ! this))) + length args
          \<and> (\<forall>k<length blocks. to_string fuel (add_children args this h)
                 (children (base (add_children args this h ! this)) ! k) (Suc i)
                = Some (blocks ! k, add_children args this h))
          \<and> s = replicate i (CHR 0x09) @ ''<'' @ tag (h ! this) @ attrib_text (attr (base (h ! this)))
                @ [CHR 0x3E, CHR 0x0A] @ concat (map (\<lambda>b. b @ [CHR 0x0A]) blocks)
                @ replicate i (CHR 0x09) @ ''</'' @ tag (h ! this) @ ''>'')"
proof -
  let ?H = "add_children args this h"
  let ?cs = "children (base (h ! this)) @ [length h ..< length h + length args]"
  have H: "?H = (h @ args)[this := rebase ((base (h ! this))\<lparr>children := ?cs\<rparr>) (h ! this)]"
    using assms(1) by (simp add: add_children_foldl foldl_add_child)
  have at: "?H ! this = rebase ((base (h ! this))\<lparr>children := ?cs\<rparr>) (h ! this)"
    using assms(1) by (simp add: H)
  have cs: "children (base (?H ! this)) = ?cs" by (simp add: at base_rebase)
  have ne: "?cs \<noteq> []" using assms(3) by simp
  have copies: "\<forall>k<length args. ?H ! (length h + k) = args ! k"
    using assms(1) by (simp add: H nth_append)
  let ?f = "\<lambda>h' it. to_string fuel h' it (Suc i)"
  let ?open = "replicate i (CHR 0x09) @ ''<'' @ tag (h ! this) @ attrib_text (attr (base (h ! this)))"
  have "Element_to_string ?f ?H this i = Some (s, h')"
    using assms(1,2,4) by (simp add: at is_Text_rebase H)
  then obtain r where r: "for_children ?f (?open @ [CHR 0x3E, CHR 0x0A]) ?H ?cs = Some (r, h')"
    and s: "s = r @ replicate i (CHR 0x09) @ ''</'' @ tag (h ! this) @ ''>''"
    using ne unfolding Element_to_string_eq cs at
    by (auto simp: Let_def tag_rebase base_rebase split: option.splits)
  have "h' = ?H \<and> (\<exists>bs. length bs = length ?cs
            \<and> (\<forall>k<length ?cs. ?f ?H (?cs ! k) = Some (bs ! k, ?H))
            \<and> r = (?open @ [CHR 0x3E, CHR 0x0A]) @ concat (map (\<lambda>b. b @ [CHR 0x0A]) bs))"
    by (rule for_children_blocks[OF _ r]) (rule to_string_store)
  then obtain bs where bs: "length bs = length ?cs"
      "\<forall>k<length ?cs. to_string fuel ?H (?cs ! k) (Suc i) = Some (bs ! k, ?H)"
      "r = (?open @ [CHR 0x3E, CHR 0x0A]) @ concat (map (\<lambda>b. b @ [CHR 0x0A]) bs)"
    by blast
  have "\<exists>blocks. length blocks = length (children (base (h ! this))) + length args
          \<and> (\<forall>k<length blocks. to_string fuel ?H (children (base (?H ! this)) ! k) (Suc i)
                = Some (blocks ! k, ?H))
          \<and> s = ?open @ [CHR 0x3E, CHR 0x0A] @ concat (map (\<lambda>b. b @ [CHR 0x0A]) blocks)
                @ replicate i (CHR 0x09) @ ''</'' @ tag (h ! this) @ ''>''"
    using bs s unfolding cs by (intro exI[of _ bs]) simp
  with add_children_foldl[of args this h] cs copies show ?thesis
    by simp
qed

text \<open>
  \<^bold>\<open>C8.\<close> \<^verbatim>\<open>add_child\<close> with several arguments does what the calls with one argument do
  one after the other, from left to right: the copies are new objects, in the order of
  the arguments, and the children of \<open>this\<close> are the ones it had, followed by the pointers
  to the copies in that order. When \<open>this\<close> is then the root of a finite tree, it is
  serialized, and every call that returns gives this text: its opening tag, then the text of
  each child and a line break, in the order of the children, then its closing tag. The block
  of a child that was added earlier comes first.
\<close>

theorem add_child_keeps_call_order:
  assumes "this < length h" "\<not> is_Text (h ! this)" "args \<noteq> []"
      and "tree (add_children args this h) this"
  shows "add_children args this h = foldl (\<lambda>h n. snd (add_child n this h)) h args
    \<and> children (base (add_children args this h ! this))
        = children (base (h ! this)) @ [length h ..< length h + length args]
    \<and> (\<forall>k<length args. add_children args this h ! (length h + k) = args ! k)
    \<and> (\<exists>fuel s blocks.
          to_string (Suc fuel) (add_children args this h) this i
            = Some (s, add_children args this h)
          \<and> (\<forall>fuel' s' h'. to_string fuel' (add_children args this h) this i = Some (s', h')
                \<longrightarrow> s' = s \<and> h' = add_children args this h)
          \<and> length blocks = length (children (base (h ! this))) + length args
          \<and> (\<forall>k<length blocks. to_string fuel (add_children args this h)
                 (children (base (add_children args this h ! this)) ! k) (Suc i)
                = Some (blocks ! k, add_children args this h))
          \<and> s = replicate i (CHR 0x09) @ ''<'' @ tag (h ! this) @ attrib_text (attr (base (h ! this)))
                @ [CHR 0x3E, CHR 0x0A] @ concat (map (\<lambda>b. b @ [CHR 0x0A]) blocks)
                @ replicate i (CHR 0x09) @ ''</'' @ tag (h ! this) @ ''>'')"
proof -
  let ?H = "add_children args this h"
  obtain fuel0 s where 0: "to_string fuel0 ?H this i = Some (s, ?H)"
    using tree_to_string [OF assms(4)] by blast
  then obtain fuel where "fuel0 = Suc fuel" by (cases fuel0) auto
  with 0 have 1: "to_string (Suc fuel) ?H this i = Some (s, ?H)" by simp
  have 2: "\<forall>fuel' s' h'. to_string fuel' ?H this i = Some (s', h') \<longrightarrow> s' = s \<and> h' = ?H"
    using to_string_deterministic [OF _ 1] by blast
  note order = serialized_children_in_order [OF assms(1-3) 1]
  from order obtain blocks where 3:
      "length blocks = length (children (base (h ! this))) + length args"
      "\<forall>k<length blocks. to_string fuel ?H (children (base (?H ! this)) ! k) (Suc i)
                = Some (blocks ! k, ?H)"
      "s = replicate i (CHR 0x09) @ ''<'' @ tag (h ! this) @ attrib_text (attr (base (h ! this)))
                @ [CHR 0x3E, CHR 0x0A] @ concat (map (\<lambda>b. b @ [CHR 0x0A]) blocks)
                @ replicate i (CHR 0x09) @ ''</'' @ tag (h ! this) @ ''>''"
    by blast
  have "\<exists>fuel s blocks.
          to_string (Suc fuel) ?H this i = Some (s, ?H)
          \<and> (\<forall>fuel' s' h'. to_string fuel' ?H this i = Some (s', h') \<longrightarrow> s' = s \<and> h' = ?H)
          \<and> length blocks = length (children (base (h ! this))) + length args
          \<and> (\<forall>k<length blocks. to_string fuel ?H (children (base (?H ! this)) ! k) (Suc i)
                = Some (blocks ! k, ?H))
          \<and> s = replicate i (CHR 0x09) @ ''<'' @ tag (h ! this) @ attrib_text (attr (base (h ! this)))
                @ [CHR 0x3E, CHR 0x0A] @ concat (map (\<lambda>b. b @ [CHR 0x0A]) blocks)
                @ replicate i (CHR 0x09) @ ''</'' @ tag (h ! this) @ ''>''"
    using 1 2 3 by blast
  then show ?thesis
    using order [THEN conjunct1] order [THEN conjunct2, THEN conjunct1]
      order [THEN conjunct2, THEN conjunct2, THEN conjunct1]
    by (intro conjI) assumption+
qed

theorem add_child_keeps_call_order_witness:
  "0 < length drawing \<and> \<not> is_Text (drawing ! 0) \<and> drawing_args \<noteq> []
   \<and> tree (add_children drawing_args 0 drawing) 0
   \<and> to_string 2 (add_children drawing_args 0 drawing) 0 0
       = Some (''<svg xmlns='' @ [CHR 0x22] @ ''http://www.w3.org/2000/svg'' @ [CHR 0x22] @ ''>''
                 @ [CHR 0x0A, CHR 0x09] @ ''<rect width='' @ [CHR 0x22] @ ''12.5'' @ [CHR 0x22] @ '' />''
                 @ [CHR 0x0A, CHR 0x09] @ ''<text x='' @ [CHR 0x22] @ ''1.000000'' @ [CHR 0x22]
                 @ '' y='' @ [CHR 0x22] @ ''2.000000'' @ [CHR 0x22] @ ''>hi</text>''
                 @ [CHR 0x0A, CHR 0x09] @ ''<g />'' @ [CHR 0x0A] @ ''</svg>'',
               add_children drawing_args 0 drawing)
   \<and> children (base (add_children drawing_args 0 drawing ! 0)) = [4, 5, 6]
   \<and> add_children drawing_args 0 drawing ! 4 = drawing ! 1
   \<and> add_children drawing_args 0 drawing ! 5 = drawing ! 2
   \<and> add_children drawing_args 0 drawing ! 6 = drawing ! 3"
proof -
  have 1: "0 < length drawing" "\<not> is_Text (drawing ! 0)" "drawing_args \<noteq> []"
    by code_simp+
  have 2: "to_string (Suc 1) (add_children drawing_args 0 drawing) 0 0
       = Some (''<svg xmlns='' @ [CHR 0x22] @ ''http://www.w3.org/2000/svg'' @ [CHR 0x22] @ ''>''
                 @ [CHR 0x0A, CHR 0x09] @ ''<rect width='' @ [CHR 0x22] @ ''12.5'' @ [CHR 0x22] @ '' />''
                 @ [CHR 0x0A, CHR 0x09] @ ''<text x='' @ [CHR 0x22] @ ''1.000000'' @ [CHR 0x22]
                 @ '' y='' @ [CHR 0x22] @ ''2.000000'' @ [CHR 0x22] @ ''>hi</text>''
                 @ [CHR 0x0A, CHR 0x09] @ ''<g />'' @ [CHR 0x0A] @ ''</svg>'',
               add_children drawing_args 0 drawing)"
    by code_simp
  have 3: "length drawing = 4" "length drawing_args = 3" "children (base (drawing ! 0)) = []"
      "drawing_args ! 0 = drawing ! 1" "drawing_args ! 1 = drawing ! 2"
      "drawing_args ! 2 = drawing ! 3"
    by code_simp+
  have upt: "[4 ..< 4 + 3] = [4, 5, (6::nat)]" by code_simp
  have t: "tree (add_children drawing_args 0 drawing) 0"
    using tree_drawn by (simp only: drawn_def)
  note order = add_child_keeps_call_order [OF 1 t, of 0]
  have 4: "children (base (add_children drawing_args 0 drawing ! 0)) = [4, 5, 6]"
    using order [THEN conjunct2, THEN conjunct1] by (simp only: 3 upt append_Nil)
  have 5: "\<forall>k<3. add_children drawing_args 0 drawing ! (4 + k) = drawing_args ! k"
    using order [THEN conjunct2, THEN conjunct2, THEN conjunct1] by (simp only: 3)
  have 6: "add_children drawing_args 0 drawing ! 4 = drawing ! 1"
       "add_children drawing_args 0 drawing ! 5 = drawing ! 2"
       "add_children drawing_args 0 drawing ! 6 = drawing ! 3"
    using 5 [rule_format, of 0] 5 [rule_format, of 1] 5 [rule_format, of 2] 3 by simp_all
  have 7: "to_string 2 (add_children drawing_args 0 drawing) 0 0
             = to_string (Suc 1) (add_children drawing_args 0 drawing) 0 0"
    by (simp only: numeral_2_eq_2 One_nat_def)
  show ?thesis
    unfolding 7 2 using 1 t 4 6 by (intro conjI) (rule refl | assumption)+
qed

text \<open>
  \<^bold>\<open>C10.\<close> \<^verbatim>\<open>add_child\<close> is given an object \<open>orig\<close> of the caller that is not in the tree
  under \<open>this\<close> and not its own descendant. The pointer returned is the last child of
  \<open>this\<close>; it points to a new object, equal to \<open>orig\<close> and other than \<open>orig\<close>, and \<open>orig\<close> is
  as it was. However the caller changes \<open>orig\<close> afterwards, and whatever objects are
  created, as long as the other objects stay as they are, \<open>this\<close> is serialized to the text
  to which it was serialized before the change.
\<close>

theorem add_child_stores_a_copy:
  assumes "this < length h" "orig < length h" "orig \<notin> reach h this"
      and "\<forall>c\<in>set (children (base (h ! orig))). orig \<notin> reach h c"
      and "add_child (h ! orig) this h = (a, h1)"
  shows "a = last (children (base (h1 ! this))) \<and> a \<noteq> orig \<and> h1 ! a = h ! orig
    \<and> h1 ! orig = h ! orig
    \<and> (\<forall>h2 fuel i s. length h1 \<le> length h2 \<and> (\<forall>x<length h1. x \<noteq> orig \<longrightarrow> h2 ! x = h1 ! x)
          \<and> to_string fuel h1 this i = Some (s, h1)
        \<longrightarrow> to_string fuel h2 this i = Some (s, h2))"
proof -
  have a: "a = length h" and h1: "h1 = (h @ [h ! orig])[this := push_back (length h) (h ! this)]"
    using assms(5) add_child_eq[OF assms(1), of "h ! orig"] by auto
  have ne: "orig \<noteq> this" using assms(3) by (auto intro: reach.root)
  have 1: "a = last (children (base (h1 ! this)))"
    using assms(1) by (simp add: a h1 push_back_def base_rebase)
  have 2: "a \<noteq> orig" using assms(2) a by simp
  have 3: "h1 ! a = h ! orig" using assms(1) by (simp add: a h1)
  have 4: "h1 ! orig = h ! orig" using assms(2) ne by (simp add: h1 nth_append)
  have out: "orig \<notin> reach h1 this"
    using reach_add_child[OF assms(1), of "h ! orig"] assms(2,3,4) unfolding h1 by auto
  have 5: "to_string fuel h2 this i = Some (s, h2)"
    if "length h1 \<le> length h2" "\<forall>x<length h1. x \<noteq> orig \<longrightarrow> h2 ! x = h1 ! x"
       "to_string fuel h1 this i = Some (s, h1)" for h2 fuel i s
  proof (rule to_string_frame[OF that(3)])
    fix x assume "x \<in> reach h1 this" "x < length h1"
    then show "x < length h2 \<and> h2 ! x = h1 ! x"
      using that(1,2) out by auto
  qed
  show ?thesis using 1 2 3 4 5 by blast
qed

theorem add_child_stores_a_copy_witness:
  "0 < length drawing \<and> 1 < length drawing \<and> 1 \<notin> reach drawing 0
   \<and> children (base (drawing ! 1)) = []
   \<and> fst (add_child (drawing ! 1) 0 drawing) = 4
   \<and> snd (add_child (drawing ! 1) 0 drawing) ! 4 = drawing ! 1
   \<and> to_string 2 (snd (add_child (drawing ! 1) 0 drawing)) 0 0
       = Some (''<svg xmlns='' @ [CHR 0x22] @ ''http://www.w3.org/2000/svg'' @ [CHR 0x22] @ ''>''
                 @ [CHR 0x0A, CHR 0x09] @ ''<rect width='' @ [CHR 0x22] @ ''12.5'' @ [CHR 0x22] @ '' />''
                 @ [CHR 0x0A] @ ''</svg>'',
               snd (add_child (drawing ! 1) 0 drawing))
   \<and> to_string 2 ((snd (add_child (drawing ! 1) 0 drawing))
                      [1 := Rect (Element_new [(''width'', ''99'')])]) 0 0
       = Some (''<svg xmlns='' @ [CHR 0x22] @ ''http://www.w3.org/2000/svg'' @ [CHR 0x22] @ ''>''
                 @ [CHR 0x0A, CHR 0x09] @ ''<rect width='' @ [CHR 0x22] @ ''12.5'' @ [CHR 0x22] @ '' />''
                 @ [CHR 0x0A] @ ''</svg>'',
               (snd (add_child (drawing ! 1) 0 drawing))
                      [1 := Rect (Element_new [(''width'', ''99'')])])"
proof -
  let ?h1 = "snd (add_child (drawing ! 1) 0 drawing)"
  let ?h2 = "?h1[1 := Rect (Element_new [(''width'', ''99'')])]"
  let ?s = "''<svg xmlns='' @ [CHR 0x22] @ ''http://www.w3.org/2000/svg'' @ [CHR 0x22] @ ''>''
                 @ [CHR 0x0A, CHR 0x09] @ ''<rect width='' @ [CHR 0x22] @ ''12.5'' @ [CHR 0x22] @ '' />''
                 @ [CHR 0x0A] @ ''</svg>''"
  have len: "0 < length drawing" "1 < length drawing" by code_simp+
  have leaf: "children (base (drawing ! 0)) = []" "children (base (drawing ! 1)) = []"
    by code_simp+
  have "reach drawing 0 \<subseteq> {0}"
    by (rule reach_closed) (simp_all add: leaf)
  then have out: "1 \<notin> reach drawing 0" by auto
  have own: "\<forall>c\<in>set (children (base (drawing ! 1))). 1 \<notin> reach drawing c"
    by (simp only: leaf) simp
  have a: "fst (add_child (drawing ! 1) 0 drawing) = 4" by code_simp
  then have call: "add_child (drawing ! 1) 0 drawing = (4, ?h1)"
    by (simp add: prod_eq_iff)
  have before: "to_string 2 ?h1 0 0 = Some (?s, ?h1)" by code_simp
  have same: "length ?h1 \<le> length ?h2 \<and> (\<forall>x<length ?h1. x \<noteq> 1 \<longrightarrow> ?h2 ! x = ?h1 ! x)"
    by simp
  note copy = add_child_stores_a_copy [OF len out own call]
  have at: "?h1 ! 4 = drawing ! 1"
    using copy [THEN conjunct2, THEN conjunct2, THEN conjunct1] .
  have after: "to_string 2 ?h2 0 0 = Some (?s, ?h2)"
    using copy [THEN conjunct2, THEN conjunct2, THEN conjunct2, THEN conjunct2] same before
    by blast
  show ?thesis
    using len out leaf(2) a at before after by (intro conjI) assumption+
qed

end
